theory Spec2Isabelle
  imports Complex_Main
begin

section \<open>JavaScript numbers\<close>

text \<open>
  The recognizer computes with JavaScript numbers. A number is modelled by the value it
  denotes: a real, one of the two infinities, or NaN. The comparison operators are the
  language's: every comparison with NaN is false. An arithmetic operation on finite values
  gives the exact result rounded to the nearest double, ties to even. The overflow of a
  finite result to an infinity and the sign of zero are not modelled.
\<close>

datatype jsnum = NaN | NInf | Fin real | PInf

fun js_lt :: "jsnum \<Rightarrow> jsnum \<Rightarrow> bool" where
  "js_lt NaN b = False"
| "js_lt a NaN = False"
| "js_lt (Fin x) (Fin y) = (x < y)"
| "js_lt PInf b = False"
| "js_lt a PInf = True"
| "js_lt NInf NInf = False"
| "js_lt NInf (Fin y) = True"
| "js_lt (Fin x) NInf = False"

fun js_le :: "jsnum \<Rightarrow> jsnum \<Rightarrow> bool" where
  "js_le NaN b = False"
| "js_le a NaN = False"
| "js_le (Fin x) (Fin y) = (x \<le> y)"
| "js_le a PInf = True"
| "js_le NInf b = True"
| "js_le PInf b = False"
| "js_le (Fin x) NInf = False"

definition js_ge :: "jsnum \<Rightarrow> jsnum \<Rightarrow> bool" where
  "js_ge a b = js_le b a"

fun js_neg :: "jsnum \<Rightarrow> jsnum" where
  "js_neg NaN = NaN"
| "js_neg NInf = PInf"
| "js_neg (Fin x) = Fin (- x)"
| "js_neg PInf = NInf"

text \<open>
  Rounding to a binary format with \<open>p\<close> significant bits whose least unit is
  \<open>2 powr emin\<close>: the unit in the last place of \<open>r\<close> has the exponent
  \<open>ulp_exponent p emin r\<close>, and \<open>r\<close> is rounded to the nearest multiple of that unit, to
  the even one of two nearest. Doubles have 53 bits and the least unit \<open>2 powr - 1074\<close>,
  the elements of a \<^verbatim>\<open>Float32Array\<close> 24 bits and the least unit \<open>2 powr - 149\<close>.
\<close>

definition round_half_even :: "real \<Rightarrow> int" where
  "round_half_even q =
     (let f = \<lfloor>q\<rfloor>; d = q - of_int f
      in if d < 1 / 2 then f else if 1 / 2 < d then f + 1 else if even f then f else f + 1)"

definition ulp_exponent :: "nat \<Rightarrow> int \<Rightarrow> real \<Rightarrow> int" where
  "ulp_exponent p emin r = max (\<lfloor>log 2 \<bar>r\<bar>\<rfloor> - (int p - 1)) emin"

definition round_binary :: "nat \<Rightarrow> int \<Rightarrow> real \<Rightarrow> real" where
  "round_binary p emin r =
     (if r = 0 then 0
      else let e = ulp_exponent p emin r
           in of_int (round_half_even (r / 2 powr of_int e)) * 2 powr of_int e)"

definition round_double :: "real \<Rightarrow> real" where
  "round_double r = round_binary 53 (- 1074) r"

definition round_float32 :: "real \<Rightarrow> real" where
  "round_float32 r = round_binary 24 (- 149) r"

fun js_add :: "jsnum \<Rightarrow> jsnum \<Rightarrow> jsnum" where
  "js_add NaN b = NaN"
| "js_add a NaN = NaN"
| "js_add (Fin x) (Fin y) = Fin (round_double (x + y))"
| "js_add PInf NInf = NaN"
| "js_add NInf PInf = NaN"
| "js_add PInf b = PInf"
| "js_add NInf b = NInf"
| "js_add (Fin x) b = b"

definition js_sub :: "jsnum \<Rightarrow> jsnum \<Rightarrow> jsnum" where
  "js_sub a b = js_add a (js_neg b)"

definition signed_inf :: "bool \<Rightarrow> jsnum" where
  "signed_inf positive = (if positive then PInf else NInf)"

fun js_mul :: "jsnum \<Rightarrow> jsnum \<Rightarrow> jsnum" where
  "js_mul NaN b = NaN"
| "js_mul a NaN = NaN"
| "js_mul (Fin x) (Fin y) = Fin (round_double (x * y))"
| "js_mul (Fin x) PInf = (if x = 0 then NaN else signed_inf (0 < x))"
| "js_mul (Fin x) NInf = (if x = 0 then NaN else signed_inf (x < 0))"
| "js_mul PInf (Fin y) = (if y = 0 then NaN else signed_inf (0 < y))"
| "js_mul NInf (Fin y) = (if y = 0 then NaN else signed_inf (y < 0))"
| "js_mul PInf PInf = PInf"
| "js_mul NInf NInf = PInf"
| "js_mul PInf NInf = NInf"
| "js_mul NInf PInf = NInf"

fun js_sqrt :: "jsnum \<Rightarrow> jsnum" where
  "js_sqrt NaN = NaN"
| "js_sqrt NInf = NaN"
| "js_sqrt (Fin x) = (if x < 0 then NaN else Fin (round_double (sqrt x)))"
| "js_sqrt PInf = PInf"

text \<open>
  For stating minima the numbers are ordered in a line, with NaN above \<open>PInf\<close>: a strict
  comparison of the language never selects NaN, so NaN never is a minimum that the code
  finds. \<open>least_of\<close> is the minimum of a list of numbers, \<open>PInf\<close> when there is none.
\<close>

fun jsnum_rank :: "jsnum \<Rightarrow> nat" where
  "jsnum_rank NInf = 0"
| "jsnum_rank (Fin x) = 1"
| "jsnum_rank PInf = 2"
| "jsnum_rank NaN = 3"

fun jsnum_val :: "jsnum \<Rightarrow> real" where
  "jsnum_val (Fin x) = x"
| "jsnum_val a = 0"

instantiation jsnum :: linorder
begin

definition less_eq_jsnum :: "jsnum \<Rightarrow> jsnum \<Rightarrow> bool" where
  "less_eq_jsnum a b =
     (jsnum_rank a < jsnum_rank b \<or> (jsnum_rank a = jsnum_rank b \<and> jsnum_val a \<le> jsnum_val b))"

definition less_jsnum :: "jsnum \<Rightarrow> jsnum \<Rightarrow> bool" where
  "less_jsnum a b =
     (jsnum_rank a < jsnum_rank b \<or> (jsnum_rank a = jsnum_rank b \<and> jsnum_val a < jsnum_val b))"

instance
proof
  fix x y z :: jsnum
  show "(x < y) = (x \<le> y \<and> \<not> y \<le> x)"
    by (auto simp: less_eq_jsnum_def less_jsnum_def)
  show "x \<le> x"
    by (simp add: less_eq_jsnum_def)
  show "x \<le> y \<Longrightarrow> y \<le> z \<Longrightarrow> x \<le> z"
    by (auto simp: less_eq_jsnum_def)
  show "x \<le> y \<Longrightarrow> y \<le> x \<Longrightarrow> x = y"
    by (cases x; cases y) (auto simp: less_eq_jsnum_def)
  show "x \<le> y \<or> y \<le> x"
    by (auto simp: less_eq_jsnum_def)
qed

end

definition least_of :: "jsnum list \<Rightarrow> jsnum" where
  "least_of xs = Min (insert PInf (set xs))"

section \<open>The descriptor store and the matcher\<close>

text \<open>
  A descriptor is a \<^verbatim>\<open>Float32Array\<close>, a list of numbers. The table \<^verbatim>\<open>this.db\<close> is a
  plain object; it is modelled by its own enumerable entries in the order
  \<^verbatim>\<open>Object.entries\<close> lists them, so its names are distinct.
\<close>

type_synonym descriptor = "jsnum list"

type_synonym store = "(string \<times> descriptor list) list"

text \<open>Reading a typed array beyond its length gives \<^verbatim>\<open>undefined\<close>, which is NaN in arithmetic.\<close>

definition at_index :: "descriptor \<Rightarrow> nat \<Rightarrow> jsnum" where
  "at_index b i = (if i < length b then b ! i else NaN)"

definition euclidean :: "descriptor \<Rightarrow> descriptor \<Rightarrow> jsnum" where
  "euclidean a b =
     js_sqrt (foldl (\<lambda>s i. let d = js_sub (at_index a i) (at_index b i) in js_add s (js_mul d d))
                    (Fin 0) [0..<length a])"

record match_result =
  bestName :: string
  bestDist :: jsnum
  secondBest :: jsnum

definition personBest :: "descriptor \<Rightarrow> descriptor list \<Rightarrow> jsnum" where
  "personBest desc stored_list =
     foldl (\<lambda>pb stored. let dist = euclidean desc stored in if js_lt dist pb then dist else pb)
           PInf stored_list"

definition top2_update :: "descriptor \<Rightarrow> match_result \<Rightarrow> string \<times> descriptor list \<Rightarrow> match_result" where
  "top2_update desc r entry =
     (let pb = personBest desc (snd entry) in
      if js_lt pb (bestDist r)
      then \<lparr>bestName = fst entry, bestDist = pb, secondBest = bestDist r\<rparr>
      else if js_lt pb (secondBest r) then r\<lparr>secondBest := pb\<rparr>
      else r)"

definition match_init :: match_result where
  "match_init = \<lparr>bestName = ''Unknown'', bestDist = PInf, secondBest = PInf\<rparr>"

definition match_entries :: "descriptor \<Rightarrow> store \<Rightarrow> match_result" where
  "match_entries desc entries = foldl (top2_update desc) match_init entries"

text \<open>
  The matcher as the specification words it: the person-best is the minimum distance over a
  person's stored descriptors, the best is the minimum person-best, its owner is the (first)
  person whose person-best it is, and the second-best is the minimum person-best among the
  persons other than a given one.
\<close>

definition person_best_spec :: "descriptor \<Rightarrow> descriptor list \<Rightarrow> jsnum" where
  "person_best_spec q l = least_of (map (euclidean q) l)"

definition global_best_spec :: "descriptor \<Rightarrow> store \<Rightarrow> jsnum" where
  "global_best_spec q d = least_of (map (\<lambda>e. person_best_spec q (snd e)) d)"

definition owner_spec :: "descriptor \<Rightarrow> store \<Rightarrow> string option" where
  "owner_spec q d =
     map_option fst (find (\<lambda>e. person_best_spec q (snd e) = global_best_spec q d) d)"

definition second_best_spec :: "descriptor \<Rightarrow> store \<Rightarrow> string \<Rightarrow> jsnum" where
  "second_best_spec q d owner =
     least_of (map (\<lambda>e. person_best_spec q (snd e)) (filter (\<lambda>e. fst e \<noteq> owner) d))"

definition match_inv :: "descriptor \<Rightarrow> store \<Rightarrow> match_result \<Rightarrow> bool" where
  "match_inv q d r =
     (bestDist r = global_best_spec q d
      \<and> secondBest r = second_best_spec q d (bestName r)
      \<and> (if bestDist r < PInf then owner_spec q d = Some (bestName r)
          else bestName r = ''Unknown''))"

section \<open>Persistence\<close>

text \<open>
  The value stored under the key \<^verbatim>\<open>face-db:v1\<close> is a string. It is modelled by what
  \<^verbatim>\<open>JSON.parse\<close> makes of it: the empty string, a text that is rejected with a
  \<^verbatim>\<open>SyntaxError\<close>, or the text of a JSON value. \<^verbatim>\<open>JSON.stringify\<close> writes a number
  that is not finite as \<^verbatim>\<open>null\<close>.
\<close>

datatype json = JNull | JBool bool | JNum jsnum | JStr string | JArr "json list"
  | JObj "(string \<times> json) list"

datatype item = EmptyString | Unparsable | Doc json

text \<open>
  \<^verbatim>\<open>new Float32Array(arr)\<close> converts each element of an array with \<^verbatim>\<open>ToNumber\<close>. The
  conversions of the platform that go through number syntax (strings, nested arrays, objects)
  and the constructor's behaviour on an argument that is not an array are parameters:
  \<open>coerce\<close> and \<open>alloc\<close> give \<open>None\<close> where the conversion or the constructor throws.
\<close>

record platform =
  coerce :: "json \<Rightarrow> jsnum option"
  alloc :: "json \<Rightarrow> descriptor option"

definition ToNumber :: "platform \<Rightarrow> json \<Rightarrow> jsnum option" where
  "ToNumber P j =
     (case j of
        JNum x \<Rightarrow> Some x
      | JNull \<Rightarrow> Some (Fin 0)
      | JBool b \<Rightarrow> Some (Fin (if b then 1 else 0))
      | _ \<Rightarrow> coerce P j)"

fun those_all :: "'a option list \<Rightarrow> 'a list option" where
  "those_all [] = Some []"
| "those_all (None # xs) = None"
| "those_all (Some x # xs) = (case those_all xs of None \<Rightarrow> None | Some ys \<Rightarrow> Some (x # ys))"

text \<open>
  An element of a \<^verbatim>\<open>Float32Array\<close> holds the number stored into it rounded to the nearest
  single-precision value; a rounded value of magnitude \<open>2 ^ 128\<close> or more is an infinity.
\<close>

definition to_float32 :: "jsnum \<Rightarrow> jsnum" where
  "to_float32 x =
     (case x of
        Fin r \<Rightarrow> (let v = round_float32 r
                  in if 2 ^ 128 \<le> \<bar>v\<bar> then signed_inf (0 < v) else Fin v)
      | _ \<Rightarrow> x)"

definition Float32Array_new :: "platform \<Rightarrow> json \<Rightarrow> descriptor option" where
  "Float32Array_new P j =
     (case j of
        JArr xs \<Rightarrow> (case those_all (map (ToNumber P) xs) of
                     None \<Rightarrow> None
                   | Some numbers \<Rightarrow> Some (map to_float32 numbers))
      | _ \<Rightarrow> alloc P j)"

text \<open>\<^verbatim>\<open>obj[name].map(arr => new Float32Array(arr))\<close>: a \<^verbatim>\<open>TypeError\<close> unless the value is an array.\<close>

definition revive_entry :: "platform \<Rightarrow> json \<Rightarrow> descriptor list option" where
  "revive_entry P v =
     (case v of JArr arrs \<Rightarrow> those_all (map (Float32Array_new P) arrs) | _ \<Rightarrow> None)"

definition digit_char :: "nat \<Rightarrow> char" where
  "digit_char d = char_of (48 + d)"

fun decimal :: "nat \<Rightarrow> string" where
  "decimal n = (if n < 10 then [digit_char n] else decimal (n div 10) @ [digit_char (n mod 10)])"

text \<open>
  The own enumerable string keys of a parsed value with their values; \<open>None\<close> where
  \<^verbatim>\<open>Object.keys\<close> throws.
\<close>

definition own_entries :: "json \<Rightarrow> (string \<times> json) list option" where
  "own_entries obj =
     (case obj of
        JNull \<Rightarrow> None
      | JBool b \<Rightarrow> Some []
      | JNum x \<Rightarrow> Some []
      | JStr s \<Rightarrow> Some (map (\<lambda>i. (decimal i, JStr [s ! i])) [0..<length s])
      | JArr xs \<Rightarrow> Some (map (\<lambda>i. (decimal i, xs ! i)) [0..<length xs])
      | JObj kvs \<Rightarrow> Some kvs)"

definition revive :: "platform \<Rightarrow> json \<Rightarrow> store option" where
  "revive P obj =
     (case own_entries obj of
        None \<Rightarrow> None
      | Some kvs \<Rightarrow>
          (case those_all (map (\<lambda>kv. revive_entry P (snd kv)) kvs) of
             None \<Rightarrow> None
           | Some vs \<Rightarrow> Some (zip (map fst kvs) vs)))"

text \<open>
  The state that the recognizer's methods read and assign: the fields of \<^verbatim>\<open>this\<close> that the
  modelled methods use, and with them the value that \<^verbatim>\<open>localStorage\<close> holds under the key
  (\<open>None\<close> when there is none). \<^verbatim>\<open>setItem\<close> is taken to succeed. \<open>db\<close> lists the own
  enumerable entries of \<^verbatim>\<open>this.db\<close>; \<open>db_primitive\<close> tells that \<^verbatim>\<open>this.db\<close> is not an
  object but a number, a boolean or a string, which has no such entry and takes none.
\<close>

record recognizer =
  db :: store
  db_primitive :: bool
  localStorage :: "item option"
  distanceThreshold :: jsnum
  secondBestMargin :: jsnum
  samplesPerPose :: jsnum
  poseInstructions :: "(string \<times> string) list"
  running :: bool

definition loadDB :: "platform \<Rightarrow> item option \<Rightarrow> store" where
  "loadDB P raw =
     (case raw of
        None \<Rightarrow> []
      | Some EmptyString \<Rightarrow> []
      | Some Unparsable \<Rightarrow> []
      | Some (Doc obj) \<Rightarrow> (case revive P obj of None \<Rightarrow> [] | Some s \<Rightarrow> s))"

text \<open>
  \<^verbatim>\<open>loadDB\<close> returns the parsed document itself when it has no key: for a number, a
  boolean or the empty string the table then is a primitive value. The constructor assigns
  what \<^verbatim>\<open>loadDB\<close> returns to \<^verbatim>\<open>this.db\<close>; the options are its other arguments.
\<close>

definition primitive_document :: "item option \<Rightarrow> bool" where
  "primitive_document raw =
     (case raw of
        Some (Doc (JBool b)) \<Rightarrow> True
      | Some (Doc (JNum x)) \<Rightarrow> True
      | Some (Doc (JStr s)) \<Rightarrow> s = []
      | _ \<Rightarrow> False)"

definition FaceAPIRecognizer ::
  "platform \<Rightarrow> item option \<Rightarrow> jsnum \<Rightarrow> jsnum \<Rightarrow> jsnum \<Rightarrow> (string \<times> string) list \<Rightarrow> recognizer" where
  "FaceAPIRecognizer P raw threshold margin samples poses =
     \<lparr>db = loadDB P raw, db_primitive = primitive_document raw, localStorage = raw,
      distanceThreshold = threshold, secondBestMargin = margin, samplesPerPose = samples,
      poseInstructions = poses, running = False\<rparr>"

definition stringify_number :: "jsnum \<Rightarrow> json" where
  "stringify_number x = (case x of Fin r \<Rightarrow> JNum (Fin r) | _ \<Rightarrow> JNull)"

text \<open>
  \<^verbatim>\<open>saveDB\<close> copies the table into a fresh object, name by name. Assigning the name
  \<^verbatim>\<open>__proto__\<close> to an object that has no own property of that name calls the setter
  inherited from \<^verbatim>\<open>Object.prototype\<close> and creates no property: an entry of that name is
  not copied.
\<close>

definition serializable :: "store \<Rightarrow> json" where
  "serializable d =
     JObj (map (\<lambda>entry. (fst entry, JArr (map (\<lambda>f32. JArr (map stringify_number f32)) (snd entry))))
            (filter (\<lambda>entry. fst entry \<noteq> ''__proto__'') d))"

definition saveDB :: "recognizer \<Rightarrow> recognizer" where
  "saveDB st = st\<lparr>localStorage := Some (Doc (serializable (db st)))\<rparr>"

definition delete_key :: "string \<Rightarrow> store \<Rightarrow> store" where
  "delete_key name d = filter (\<lambda>entry. fst entry \<noteq> name) d"

text \<open>
  The names that are array indices, the decimal numerals of the integers below
  \<open>2 ^ 32 - 1\<close>, are listed by an object before its other names, in ascending order.
\<close>

definition digit_value :: "char \<Rightarrow> nat" where
  "digit_value c = of_char c - 48"

definition is_digit :: "char \<Rightarrow> bool" where
  "is_digit c = (48 \<le> (of_char c :: nat) \<and> (of_char c :: nat) \<le> 57)"

definition array_index :: "string \<Rightarrow> nat option" where
  "array_index name =
     (if name \<noteq> [] \<and> list_all is_digit name \<and> (length name = 1 \<or> hd name \<noteq> CHR ''0'')
      then (let n = foldl (\<lambda>a c. 10 * a + digit_value c) 0 name
            in if n < 4294967295 then Some n else None)
      else None)"

fun insert_index :: "nat \<Rightarrow> string \<times> descriptor list \<Rightarrow> store \<Rightarrow> store" where
  "insert_index i new [] = [new]"
| "insert_index i new (entry # d) =
     (case array_index (fst entry) of
        Some j \<Rightarrow> if j < i then entry # insert_index i new d else new # entry # d
      | None \<Rightarrow> new # entry # d)"

text \<open>
  Assigning \<^verbatim>\<open>this.db[name]\<close> keeps the place of a name that is present. A name that is
  not present is added, an array index among the array indices and any other name after all
  names, except \<^verbatim>\<open>__proto__\<close>: that assignment calls the inherited setter and adds no entry.
  (A table that is an array, as \<^verbatim>\<open>loadDB\<close> returns for a document that is an array, is
  modelled as an object: its \<^verbatim>\<open>length\<close> is not.)
\<close>

definition assign_key :: "string \<Rightarrow> descriptor list \<Rightarrow> store \<Rightarrow> store" where
  "assign_key name v d =
     (if name \<in> fst ` set d
      then map (\<lambda>entry. if fst entry = name then (name, v) else entry) d
      else if name = ''__proto__'' then d
      else (case array_index name of
              Some i \<Rightarrow> insert_index i (name, v) d
            | None \<Rightarrow> d @ [(name, v)]))"

datatype error = CameraUnavailable | NoSamples | TypeError

definition delete :: "string \<Rightarrow> recognizer \<Rightarrow> recognizer" where
  "delete name st = saveDB (st\<lparr>db := delete_key name (db st)\<rparr>)"

text \<open>
  In the strict code of a class, assigning a property to a primitive value throws a
  \<^verbatim>\<open>TypeError\<close>, before \<^verbatim>\<open>saveDB\<close> is reached; the setter of \<^verbatim>\<open>__proto__\<close> alone
  returns without one.
\<close>

definition replace :: "string \<Rightarrow> descriptor list \<Rightarrow> recognizer \<Rightarrow> error + recognizer" where
  "replace name descriptors st =
     (if db_primitive st \<and> name \<noteq> ''__proto__'' then Inl TypeError
      else Inr (saveDB (st\<lparr>db := assign_key name descriptors (db st)\<rparr>)))"

text \<open>\<^verbatim>\<open>!= null\<close> is false for \<^verbatim>\<open>null\<close> and \<^verbatim>\<open>undefined\<close> only: an absent option.\<close>

definition setThresholds :: "jsnum option \<Rightarrow> jsnum option \<Rightarrow> recognizer \<Rightarrow> recognizer" where
  "setThresholds dt sbm st =
     (let st1 = (case dt of None \<Rightarrow> st | Some t \<Rightarrow> st\<lparr>distanceThreshold := t\<rparr>)
      in (case sbm of None \<Rightarrow> st1 | Some m \<Rightarrow> st1\<lparr>secondBestMargin := m\<rparr>))"

section \<open>Matching and verification\<close>

text \<open>A method is a function from the state to its result and the state it leaves.\<close>

definition matchDescriptor :: "descriptor \<Rightarrow> recognizer \<Rightarrow> match_result \<times> recognizer" where
  "matchDescriptor desc st = (match_entries desc (db st), st)"

text \<open>
  One iteration of \<^verbatim>\<open>verify\<close>: the payload \<^verbatim>\<open>{name, distance}\<close> given to \<^verbatim>\<open>onResult\<close>,
  from the result of \<^verbatim>\<open>detectOne\<close> (\<open>None\<close> for \<^verbatim>\<open>null\<close>).
\<close>

definition verify_tick :: "descriptor option \<Rightarrow> recognizer \<Rightarrow> (string \<times> jsnum) \<times> recognizer" where
  "verify_tick result st =
     (case result of
        None \<Rightarrow> ((''Unknown'', Fin 0), st)
      | Some descriptor \<Rightarrow>
          (let (r, st1) = matchDescriptor descriptor st;
               accept = (js_le (bestDist r) (distanceThreshold st1)
                         \<and> js_ge (js_sub (secondBest r) (bestDist r)) (secondBestMargin st1))
           in ((if accept then bestName r else ''Unknown'', bestDist r), st1)))"

section \<open>Enrollment\<close>

text \<open>
  The enrollment loop is driven by the camera: each iteration awaits \<^verbatim>\<open>detectOne\<close>, which
  gives \<^verbatim>\<open>null\<close> or a descriptor, and \<^verbatim>\<open>stop\<close> may be called while the iteration waits.
  The loop is run on the list of what its iterations observe; it has not completed (\<open>None\<close>)
  when its condition still holds and no observation is left.
\<close>

datatype frame = NoFace | Face descriptor

type_synonym tick = "frame \<times> bool"

fun enroll_loop :: "recognizer \<Rightarrow> bool \<Rightarrow> nat \<Rightarrow> nat \<Rightarrow> descriptor list \<Rightarrow> tick list
                    \<Rightarrow> descriptor list option" where
  "enroll_loop cfg run poseIdx poseCount collected [] =
     (if run \<and> poseIdx < length (poseInstructions cfg) then None else Some collected)"
| "enroll_loop cfg run poseIdx poseCount collected ((result, stopped) # ticks) =
     (if run \<and> poseIdx < length (poseInstructions cfg)
      then (case result of
              NoFace \<Rightarrow> enroll_loop cfg (run \<and> \<not> stopped) poseIdx poseCount collected ticks
            | Face descriptor \<Rightarrow>
                (if js_ge (Fin (real (poseCount + 1))) (samplesPerPose cfg)
                 then enroll_loop cfg (run \<and> \<not> stopped) (poseIdx + 1) 0
                        (collected @ [descriptor]) ticks
                 else enroll_loop cfg (run \<and> \<not> stopped) poseIdx (poseCount + 1)
                        (collected @ [descriptor]) ticks))
      else Some collected)"

text \<open>
  \<open>camera\<close> tells whether \<^verbatim>\<open>startVideo\<close> resolves; when it rejects, the error leaves
  \<^verbatim>\<open>enroll\<close> before anything is assigned. The result is \<open>None\<close> while the loop has not
  completed, else the thrown error or the returned count, with the state left behind. An
  error that \<^verbatim>\<open>replace\<close> throws leaves \<^verbatim>\<open>enroll\<close> as it is.
\<close>

definition enroll :: "string \<Rightarrow> bool \<Rightarrow> tick list \<Rightarrow> recognizer \<Rightarrow> ((error + nat) \<times> recognizer) option" where
  "enroll name camera ticks st =
     (if \<not> camera then Some (Inl CameraUnavailable, st)
      else (case enroll_loop st True 0 0 [] ticks of
              None \<Rightarrow> None
            | Some collected \<Rightarrow>
                (let st1 = st\<lparr>running := False\<rparr> in
                 if length collected = 0 then Some (Inl NoSamples, st1)
                 else (case replace name collected st1 of
                         Inl e \<Rightarrow> Some (Inl e, st1)
                       | Inr st2 \<Rightarrow> Some (Inr (length collected), st2)))))"

section \<open>The service worker\<close>

record url =
  origin :: string
  pathname :: string

fun str_includes :: "string \<Rightarrow> string \<Rightarrow> bool" where
  "str_includes [] needle = (needle = [])"
| "str_includes (c # cs) needle = (take (length needle) (c # cs) = needle \<or> str_includes cs needle)"

text \<open>\<open>None\<close> is a text that \<^verbatim>\<open>new URL\<close> rejects.\<close>

definition isModelRequest :: "url option \<Rightarrow> bool" where
  "isModelRequest parsed =
     (case parsed of None \<Rightarrow> False | Some u \<Rightarrow> str_includes (pathname u) ''/models/'')"

record request =
  req_method :: string
  req_url :: string
  parsed_url :: "url option"

record response =
  ok :: bool
  opaque :: bool
  body :: string

datatype strategy = CacheFirst | StaleWhileRevalidate

datatype handling = Throws | NotHandled | RespondWith strategy

definition fetch_listener :: "string \<Rightarrow> request \<Rightarrow> handling" where
  "fetch_listener location_origin req =
     (case parsed_url req of
        None \<Rightarrow> Throws
      | Some u \<Rightarrow>
          if req_method req \<noteq> ''GET'' then NotHandled
          else if origin u = location_origin
          then (if isModelRequest (parsed_url req) then RespondWith StaleWhileRevalidate
                else RespondWith CacheFirst)
          else RespondWith StaleWhileRevalidate)"

text \<open>
  The cache maps the text of a request's URL to the response stored for it; \<open>net\<close> is what
  \<^verbatim>\<open>fetch(req)\<close> settles to, \<open>None\<close> when it rejects. Each strategy gives the response
  handed to \<^verbatim>\<open>respondWith\<close> (\<open>None\<close>: none, the request fails) and the cache once the
  strategy's work has settled.
\<close>

type_synonym cache = "string \<rightharpoonup> response"

definition cacheFirst :: "request \<Rightarrow> response option \<Rightarrow> cache \<Rightarrow> response option \<times> cache" where
  "cacheFirst req net c =
     (case c (req_url req) of
        Some cached \<Rightarrow> (Some cached, c)
      | None \<Rightarrow>
          (case net of
             None \<Rightarrow> (None, c)
           | Some res \<Rightarrow> (Some res, if ok res then c(req_url req \<mapsto> res) else c)))"

definition staleWhileRevalidate :: "request \<Rightarrow> response option \<Rightarrow> cache \<Rightarrow> response option \<times> cache" where
  "staleWhileRevalidate req net c =
     (let cached = c (req_url req);
          networkFetch = (case net of None \<Rightarrow> cached | Some res \<Rightarrow> Some res);
          c1 = (case net of
                  None \<Rightarrow> c
                | Some res \<Rightarrow> if ok res \<or> opaque res then c(req_url req \<mapsto> res) else c)
      in (case cached of Some r \<Rightarrow> Some r | None \<Rightarrow> networkFetch, c1))"

definition respond :: "strategy \<Rightarrow> request \<Rightarrow> response option \<Rightarrow> cache \<Rightarrow> response option \<times> cache" where
  "respond s = (case s of CacheFirst \<Rightarrow> cacheFirst | StaleWhileRevalidate \<Rightarrow> staleWhileRevalidate)"

section \<open>Well-formed descriptors and example states\<close>

text \<open>The data model's descriptors hold finite numbers only.\<close>

definition finite_descriptor :: "descriptor \<Rightarrow> bool" where
  "finite_descriptor d = list_all (\<lambda>x. case x of Fin r \<Rightarrow> True | _ \<Rightarrow> False) d"

text \<open>One enrolled person, whose two samples are the same vector; the default thresholds.\<close>

definition st_alice :: recognizer where
  "st_alice = \<lparr>db = [(''Alice'', [[Fin 3, Fin 4], [Fin 3, Fin 4]])],
     db_primitive = False, localStorage = None,
     distanceThreshold = Fin (1 / 2), secondBestMargin = Fin (1 / 20),
     samplesPerPose = Fin 3, poseInstructions = [(''Center'', ''Look straight ahead'')],
     running = False\<rparr>"

text \<open>
  Two enrolled persons at distances 5 and 10 from the origin, with threshold and margin set
  to 5; and a person who is enrolled with no sample.
\<close>

definition st_two :: recognizer where
  "st_two = \<lparr>db = [(''Alice'', [[Fin 3, Fin 4]]), (''Bob'', [[Fin 6, Fin 8]])],
     db_primitive = False, localStorage = None,
     distanceThreshold = Fin 5, secondBestMargin = Fin 5,
     samplesPerPose = Fin 3, poseInstructions = [(''Center'', ''Look straight ahead'')],
     running = False\<rparr>"

definition st_no_samples :: recognizer where
  "st_no_samples = \<lparr>db = [(''Alice'', [])],
     db_primitive = False, localStorage = None,
     distanceThreshold = Fin (1 / 2), secondBestMargin = Fin (1 / 20),
     samplesPerPose = Fin 3, poseInstructions = [(''Center'', ''Look straight ahead'')],
     running = False\<rparr>"

text \<open>
  The acceptance rule as the specification words it, for a finite threshold and margin: the
  best distance is at most the threshold, and the second-best exceeds it by the margin at
  least (always so when there is no competitor, the second-best being \<open>PInf\<close>). In
  \<open>accept_spec\<close> the difference is the exact one, in \<open>accept_rounded\<close> it is the double
  that the subtraction gives.
\<close>

definition accept_spec :: "real \<Rightarrow> real \<Rightarrow> jsnum \<Rightarrow> jsnum \<Rightarrow> bool" where
  "accept_spec threshold margin best second =
     (case best of
        Fin d1 \<Rightarrow> d1 \<le> threshold
                  \<and> (case second of Fin d2 \<Rightarrow> margin \<le> d2 - d1 | PInf \<Rightarrow> True | _ \<Rightarrow> False)
      | _ \<Rightarrow> False)"

definition accept_rounded :: "real \<Rightarrow> real \<Rightarrow> jsnum \<Rightarrow> jsnum \<Rightarrow> bool" where
  "accept_rounded threshold margin best second =
     (case best of
        Fin d1 \<Rightarrow> d1 \<le> threshold
                  \<and> (case second of Fin d2 \<Rightarrow> margin \<le> round_double (d2 - d1) | PInf \<Rightarrow> True
                       | _ \<Rightarrow> False)
      | _ \<Rightarrow> False)"

text \<open>
  Two enrolled persons at the distances \<open>tiny\<close> and 1 from the origin, with the margin set
  to 1: the exact difference of the two distances is below the margin, the computed one is not.
\<close>

definition tiny :: real where
  "tiny = 1 / 2 ^ 60"

definition st_margin :: recognizer where
  "st_margin = \<lparr>db = [(''Alice'', [[Fin tiny]]), (''Bob'', [[Fin 1]])],
     db_primitive = False, localStorage = None,
     distanceThreshold = Fin (1 / 2), secondBestMargin = Fin 1,
     samplesPerPose = Fin 3, poseInstructions = [(''Center'', ''Look straight ahead'')],
     running = False\<rparr>"

text \<open>A person enrolled under the name that the matcher uses for no match.\<close>

definition st_unknown :: recognizer where
  "st_unknown = \<lparr>db = [(''Unknown'', [[Fin 3, Fin 4]])],
     db_primitive = False, localStorage = None,
     distanceThreshold = Fin (1 / 2), secondBestMargin = Fin (1 / 20),
     samplesPerPose = Fin 3, poseInstructions = [(''Center'', ''Look straight ahead'')],
     running = False\<rparr>"

text \<open>
  A descriptor, and a store, all of whose numbers are finite single-precision values: storing
  such a number into a \<^verbatim>\<open>Float32Array\<close> gives the number itself.
\<close>

definition float32_descriptor :: "descriptor \<Rightarrow> bool" where
  "float32_descriptor d =
     list_all (\<lambda>x. case x of Fin r \<Rightarrow> to_float32 (Fin r) = Fin r | _ \<Rightarrow> False) d"

definition float32_store :: "store \<Rightarrow> bool" where
  "float32_store d = list_all (\<lambda>entry. list_all float32_descriptor (snd entry)) d"

text \<open>A platform for the examples, and a store with a descriptor that holds NaN.\<close>

definition platform0 :: platform where
  "platform0 = \<lparr>coerce = (\<lambda>j. Some NaN), alloc = (\<lambda>j. Some [])\<rparr>"

definition st_nan :: recognizer where
  "st_nan = \<lparr>db = [(''Alice'', [[NaN, Fin 1]])],
     db_primitive = False, localStorage = None,
     distanceThreshold = Fin (1 / 2), secondBestMargin = Fin (1 / 20),
     samplesPerPose = Fin 3, poseInstructions = [(''Center'', ''Look straight ahead'')],
     running = False\<rparr>"

text \<open>Example requests and responses for the service worker.\<close>

definition app_origin :: string where
  "app_origin = ''https://app.example''"

definition sw_request :: "string \<Rightarrow> string \<Rightarrow> string \<Rightarrow> request" where
  "sw_request m orig path =
     \<lparr>req_method = m, req_url = orig @ path, parsed_url = Some \<lparr>origin = orig, pathname = path\<rparr>\<rparr>"

definition ok_response :: response where
  "ok_response = \<lparr>ok = True, opaque = False, body = ''shell''\<rparr>"

definition fresh_response :: response where
  "fresh_response = \<lparr>ok = True, opaque = False, body = ''model, new''\<rparr>"

definition failed_response :: response where
  "failed_response = \<lparr>ok = False, opaque = False, body = ''not found''\<rparr>"

section \<open>Facts about rounding\<close>

lemma round_half_even_int: "round_half_even (of_int n) = n"
  by (simp add: round_half_even_def)

lemma round_half_even_nonneg: "0 \<le> q \<Longrightarrow> 0 \<le> round_half_even q"
  by (auto simp: round_half_even_def Let_def)

lemma round_binary_zero: "round_binary p emin 0 = 0"
  by (simp add: round_binary_def)

lemma round_binary_nonneg: "0 \<le> r \<Longrightarrow> 0 \<le> round_binary p emin r"
  by (auto simp: round_binary_def Let_def intro!: mult_nonneg_nonneg round_half_even_nonneg)

lemma two_powr_int: "0 \<le> k \<Longrightarrow> 2 powr of_int k = (of_int (2 ^ nat k) :: real)"
proof -
  assume "0 \<le> k"
  then have "2 powr of_int k = (2 :: real) powr real (nat k)" by simp
  also have "\<dots> = 2 ^ nat k" by (simp add: powr_realpow)
  finally show ?thesis by simp
qed

lemma two_powr_neg: "2 powr (- real n) = 1 / (2 :: real) ^ n"
  by (simp add: powr_minus_divide powr_realpow)

text \<open>A number with at most \<open>p\<close> significant bits above the least unit is not changed.\<close>

lemma round_binary_representable:
  assumes "\<bar>m\<bar> < 2 ^ p" "emin \<le> e"
  shows "round_binary p emin (of_int m * 2 powr of_int e) = of_int m * 2 powr of_int e"
proof (cases "m = 0")
  case True
  then show ?thesis by (simp add: round_binary_def)
next
  case False
  let ?r = "of_int m * 2 powr of_int e :: real"
  have r0: "?r \<noteq> 0" using False by simp
  have pos: "0 < \<bar>?r\<bar>" using r0 by simp
  have "\<bar>?r\<bar> = of_int \<bar>m\<bar> * 2 powr of_int e" by (simp add: abs_mult)
  also have "\<dots> < 2 ^ p * 2 powr of_int e"
  proof -
    have "(of_int \<bar>m\<bar> :: real) < of_int (2 ^ p)" using assms(1) by (simp only: of_int_less_iff)
    then show ?thesis by simp
  qed
  also have "\<dots> = 2 powr (real p + of_int e)"
    by (simp add: powr_add powr_realpow)
  finally have "\<bar>?r\<bar> < 2 powr (real p + of_int e)" .
  then have "log 2 \<bar>?r\<bar> < real p + of_int e"
    using pos by (simp add: log_less_iff)
  then have "log 2 \<bar>?r\<bar> < of_int (int p + e)" by simp
  then have "\<lfloor>log 2 \<bar>?r\<bar>\<rfloor> < int p + e" by (simp only: floor_less_iff)
  then have ue: "ulp_exponent p emin ?r \<le> e"
    using assms(2) by (simp add: ulp_exponent_def)
  define k where "k = e - ulp_exponent p emin ?r"
  have k: "0 \<le> k" using ue by (simp add: k_def)
  have "?r / 2 powr of_int (ulp_exponent p emin ?r) = of_int m * 2 powr of_int k"
    by (simp add: k_def powr_diff)
  also have "\<dots> = of_int (m * 2 ^ nat k)"
    using k by (simp add: two_powr_int)
  finally have q: "?r / 2 powr of_int (ulp_exponent p emin ?r) = of_int (m * 2 ^ nat k)" .
  have "round_binary p emin ?r
        = of_int (m * 2 ^ nat k) * 2 powr of_int (ulp_exponent p emin ?r)"
    using r0 unfolding round_binary_def Let_def q round_half_even_int by simp
  also have "\<dots> = of_int m * (2 powr of_int k * 2 powr of_int (ulp_exponent p emin ?r))"
    using k by (simp add: two_powr_int)
  also have "\<dots> = ?r"
    by (simp add: k_def powr_add [symmetric])
  finally show ?thesis .
qed

lemma round_double_zero: "round_double 0 = 0"
  by (simp add: round_double_def round_binary_zero)

lemma round_double_nonneg: "0 \<le> r \<Longrightarrow> 0 \<le> round_double r"
  by (simp add: round_double_def round_binary_nonneg)

lemma round_double_int: "\<bar>m\<bar> < 2 ^ 53 \<Longrightarrow> round_double (of_int m) = of_int m"
  using round_binary_representable [of m 53 "- 1074" 0] by (simp add: round_double_def)

lemma round_double_one: "round_double 1 = 1" "round_double (- 1) = - 1"
  using round_double_int [of 1] round_double_int [of "- 1"] by simp_all

lemma round_double_numeral:
  "(numeral n :: int) < 2 ^ 53 \<Longrightarrow> round_double (numeral n) = numeral n"
  "(numeral n :: int) < 2 ^ 53 \<Longrightarrow> round_double (- numeral n) = - numeral n"
  using round_double_int [of "numeral n"] round_double_int [of "- numeral n"] by simp_all

lemma round_double_pow2_neg:
  "n \<le> 1074 \<Longrightarrow> round_double (1 / 2 ^ n) = 1 / 2 ^ n"
  using round_binary_representable [of 1 53 "- 1074" "- int n"]
  by (simp add: round_double_def two_powr_neg)

lemma round_double_minus_pow2_neg:
  "n \<le> 1074 \<Longrightarrow> round_double (- (1 / 2 ^ n)) = - (1 / 2 ^ n)"
  using round_binary_representable [of "- 1" 53 "- 1074" "- int n"]
  by (simp add: round_double_def two_powr_neg)

lemma floor_log2_below_one:
  assumes "1 / 2 \<le> x" "x < 1"
  shows "\<lfloor>log 2 x\<rfloor> = - 1"
proof (rule floor_unique)
  have pos: "0 < x" using assms by simp
  have "2 powr (- 1) \<le> x" using assms by (simp add: powr_minus_divide)
  then show "of_int (- 1) \<le> log 2 x" using pos by (simp add: le_log_iff)
  have "log 2 x < 0" using assms pos by simp
  then show "log 2 x < of_int (- 1) + 1" by simp
qed

text \<open>
  The double nearest to \<open>1 - 1 / 2 ^ 60\<close> is 1: the doubles below 1 are
  \<open>1 / 2 ^ 53\<close> apart.
\<close>

lemma floor_log2_near_one: "\<lfloor>log 2 \<bar>1 - 1 / 2 ^ 60 :: real\<bar>\<rfloor> = - 1"
proof -
  have "\<bar>1 - 1 / 2 ^ 60 :: real\<bar> = 1 - 1 / 2 ^ 60" by simp
  moreover have "\<lfloor>log 2 (1 - 1 / 2 ^ 60 :: real)\<rfloor> = - 1"
    by (rule floor_log2_below_one) simp_all
  ultimately show ?thesis by (simp only:)
qed

lemma ulp_exponent_near_one: "ulp_exponent 53 (- 1074) (1 - 1 / 2 ^ 60) = - 53"
  by (simp only: ulp_exponent_def floor_log2_near_one) simp

lemma quotient_near_one:
  "(1 - 1 / 2 ^ 60 :: real) / (1 / 2 ^ 53) = of_int (2 ^ 53 - 1) + 127 / 128"
  by simp

lemma floor_quotient_near_one: "\<lfloor>of_int (2 ^ 53 - 1) + 127 / 128 :: real\<rfloor> = 2 ^ 53 - 1"
  by (simp only: floor_add_int [symmetric] add.commute [of "of_int _"]) simp

lemma round_quotient_near_one: "round_half_even (of_int (2 ^ 53 - 1) + 127 / 128) = 2 ^ 53"
  unfolding round_half_even_def Let_def floor_quotient_near_one by simp

lemma round_double_below_one: "round_double (1 - 1 / 2 ^ 60) = 1"
proof -
  have p: "2 powr of_int (- 53) = 1 / (2 :: real) ^ 53"
    using two_powr_neg [of 53] by simp
  have n: "(1 - 1 / 2 ^ 60 :: real) \<noteq> 0" by simp
  have "round_double (1 - 1 / 2 ^ 60)
        = of_int (round_half_even ((1 - 1 / 2 ^ 60) / (1 / 2 ^ 53))) * (1 / 2 ^ 53)"
    unfolding round_double_def round_binary_def Let_def ulp_exponent_near_one p
    using n by (simp only: if_False)
  also have "\<dots> = of_int (2 ^ 53) * (1 / 2 ^ 53)"
    by (simp only: quotient_near_one round_quotient_near_one)
  also have "\<dots> = 1" by simp
  finally show ?thesis .
qed

text \<open>Rounding a rounded number changes nothing: the rounded numbers are the format's own.\<close>

lemma round_half_even_upper: "q < of_int N \<Longrightarrow> round_half_even q \<le> N"
proof -
  assume "q < of_int N"
  then have "\<lfloor>q\<rfloor> < N" by (simp add: floor_less_iff)
  then show ?thesis by (auto simp: round_half_even_def Let_def)
qed

lemma round_half_even_lower: "of_int M \<le> q \<Longrightarrow> M \<le> round_half_even q"
proof -
  assume "of_int M \<le> q"
  then have "M \<le> \<lfloor>q\<rfloor>" by (simp add: le_floor_iff)
  then show ?thesis by (auto simp: round_half_even_def Let_def)
qed

lemma scaled_below_two_power:
  assumes "r \<noteq> 0"
  shows "\<bar>r / 2 powr of_int (ulp_exponent p emin r)\<bar> < 2 ^ p"
proof -
  let ?L = "\<lfloor>log 2 \<bar>r\<bar>\<rfloor>"
  let ?e = "ulp_exponent p emin r"
  have pos: "0 < \<bar>r\<bar>" using assms by simp
  have "\<bar>r\<bar> < 2 powr (of_int ?L + 1)"
  proof (subst less_powr_iff)
    show "(1 :: real) < 2" by simp
    show "0 < \<bar>r\<bar>" by (rule pos)
    show "log 2 \<bar>r\<bar> < of_int ?L + 1" by linarith
  qed
  also have "\<dots> \<le> 2 powr (of_int ?e + real p)"
  proof (intro powr_mono)
    have "?L - (int p - 1) \<le> ?e" by (simp add: ulp_exponent_def)
    then have "?L + 1 \<le> ?e + int p" by simp
    then have "(of_int (?L + 1) :: real) \<le> of_int (?e + int p)" by (simp only: of_int_le_iff)
    then show "of_int ?L + 1 \<le> of_int ?e + real p" by simp
  qed simp
  also have "\<dots> = 2 powr of_int ?e * 2 ^ p"
    by (simp add: powr_add powr_realpow)
  finally have "\<bar>r\<bar> < 2 powr of_int ?e * 2 ^ p" .
  then have "\<bar>r\<bar> / 2 powr of_int ?e < 2 ^ p"
    by (simp add: pos_divide_less_eq mult.commute)
  then show ?thesis by simp
qed

lemma round_binary_idempotent:
  assumes "0 < p"
  shows "round_binary p emin (round_binary p emin r) = round_binary p emin r"
proof (cases "r = 0")
  case True
  then show ?thesis by (simp add: round_binary_def)
next
  case False
  let ?e = "ulp_exponent p emin r"
  let ?q = "r / 2 powr of_int ?e"
  let ?n = "round_half_even ?q"
  have v: "round_binary p emin r = of_int ?n * 2 powr of_int ?e"
    using False by (simp add: round_binary_def Let_def)
  have e: "emin \<le> ?e" by (simp add: ulp_exponent_def)
  have q: "\<bar>?q\<bar> < 2 ^ p" using False by (rule scaled_below_two_power)
  have "?q < 2 ^ p" using q by linarith
  then have "?q < of_int (2 ^ p)" by simp
  then have up: "?n \<le> 2 ^ p" by (rule round_half_even_upper)
  have "- (2 ^ p) \<le> ?q" using q by linarith
  then have "of_int (- (2 ^ p)) \<le> ?q" by simp
  then have lo: "- (2 ^ p) \<le> ?n" by (rule round_half_even_lower)
  show ?thesis
  proof (cases "\<bar>?n\<bar> < 2 ^ p")
    case True
    then show ?thesis unfolding v using e by (rule round_binary_representable)
  next
    case False
    with up lo have n: "?n = 2 ^ p \<or> ?n = - (2 ^ p)" by linarith
    obtain k where p: "p = Suc k" using assms by (cases p) auto
    have "\<exists>m. ?n = 2 * m \<and> \<bar>m\<bar> < 2 ^ p"
    proof (rule disjE [OF n])
      assume "?n = 2 ^ p"
      then have "?n = 2 * 2 ^ k \<and> \<bar>2 ^ k :: int\<bar> < 2 ^ p" by (simp add: p)
      then show ?thesis by blast
    next
      assume "?n = - (2 ^ p)"
      then have "?n = 2 * (- (2 ^ k)) \<and> \<bar>- (2 ^ k) :: int\<bar> < 2 ^ p" by (simp add: p)
      then show ?thesis by blast
    qed
    then obtain m where n2: "?n = 2 * m" and mb: "\<bar>m\<bar> < 2 ^ p" by blast
    have "(of_int ?n :: real) * 2 powr of_int ?e = of_int m * 2 powr of_int (?e + 1)"
      by (simp add: n2 powr_add)
    moreover have "round_binary p emin (of_int m * 2 powr of_int (?e + 1))
                   = of_int m * 2 powr of_int (?e + 1)"
      using mb e by (intro round_binary_representable) simp_all
    ultimately show ?thesis unfolding v by simp
  qed
qed

section \<open>Facts about numbers and minima\<close>

lemma js_lt_less: "b \<noteq> NaN \<Longrightarrow> js_lt a b = (a < b)"
  by (cases a; cases b) (auto simp: less_jsnum_def)

lemma js_le_less_eq: "b \<noteq> NaN \<Longrightarrow> js_le a b = (a \<le> b)"
  by (cases a; cases b) (auto simp: less_eq_jsnum_def)

lemma js_lt_not_NaN: "js_lt a b \<Longrightarrow> a \<noteq> NaN"
  by (cases a; cases b) auto

lemma less_PInf_not_NaN: "a \<le> PInf \<Longrightarrow> a \<noteq> NaN"
  by (cases a) (auto simp: less_eq_jsnum_def)

lemma least_of_Nil: "least_of [] = PInf" by (simp add: least_of_def)

lemma least_of_Cons: "least_of (x # xs) = min x (least_of xs)"
  unfolding least_of_def
  by (metis List.finite_set Min_insert insert_commute insert_not_empty list.simps(15))

lemma least_of_snoc: "least_of (xs @ [x]) = min (least_of xs) x"
  by (induction xs) (simp_all add: least_of_Cons least_of_Nil min.commute min.left_commute)

lemma least_of_le_PInf: "least_of xs \<le> PInf"
  by (simp add: least_of_def)

lemma least_of_le: "x \<in> set xs \<Longrightarrow> least_of xs \<le> x"
  by (simp add: least_of_def)

lemma least_of_mem: "least_of xs = PInf \<or> least_of xs \<in> set xs"
  unfolding least_of_def
  by (metis Min_in List.finite_set finite.insertI insert_iff insert_not_empty)

lemma personBest_foldl:
  "acc \<le> PInf \<Longrightarrow>
   foldl (\<lambda>pb stored. let dist = euclidean q stored in if js_lt dist pb then dist else pb) acc l
   = min acc (least_of (map (euclidean q) l))"
proof (induction l arbitrary: acc)
  case Nil
  then show ?case by (simp add: least_of_Nil min_def)
next
  case (Cons s l)
  have n: "acc \<noteq> NaN" using Cons.prems by (rule less_PInf_not_NaN)
  let ?acc' = "if js_lt (euclidean q s) acc then euclidean q s else acc"
  have a': "?acc' = min (euclidean q s) acc" using n by (auto simp: js_lt_less min_def)
  have "?acc' \<le> PInf" using Cons.prems a' by (simp add: min.coboundedI2)
  from Cons.IH [OF this] show ?case
    by (simp add: Let_def least_of_Cons a' min.assoc min.commute min.left_commute
        del: min_less_iff_conj)
qed

lemma personBest_spec: "personBest q l = person_best_spec q l"
  unfolding personBest_def person_best_spec_def using personBest_foldl [of PInf q l]
  by (simp add: least_of_le_PInf min.absorb2)

section \<open>The matcher computes the two least person-bests\<close>

lemma personBest_le_PInf: "personBest q l \<le> PInf"
  by (simp add: personBest_spec person_best_spec_def least_of_le_PInf)

lemma match_entries_snoc:
  "match_entries q (es @ [e]) = top2_update q (match_entries q es) e"
  by (simp add: match_entries_def)

lemma match_entries_Nil: "match_entries q [] = match_init"
  by (simp add: match_entries_def)

lemma match_bounds:
  "bestDist (match_entries q es) \<le> PInf \<and> secondBest (match_entries q es) \<le> PInf
   \<and> bestDist (match_entries q es) \<le> secondBest (match_entries q es)"
proof (induction es rule: rev_induct)
  case Nil
  show ?case by (simp add: match_entries_Nil match_init_def)
next
  case (snoc e es)
  let ?r = "match_entries q es"
  let ?p = "personBest q (snd e)"
  have p: "?p \<le> PInf" by (rule personBest_le_PInf)
  have b: "bestDist ?r \<noteq> NaN" "secondBest ?r \<noteq> NaN"
    using snoc.IH by (auto dest: less_PInf_not_NaN)
  show ?case
    using snoc.IH p b
    by (auto simp: match_entries_snoc top2_update_def Let_def js_lt_less)
qed

lemma find_append:
  "find P (xs @ ys) = (case find P xs of None \<Rightarrow> find P ys | Some x \<Rightarrow> Some x)"
  by (induction xs) simp_all

lemma global_best_snoc:
  "global_best_spec q (es @ [e]) = min (global_best_spec q es) (personBest q (snd e))"
  by (simp add: global_best_spec_def least_of_snoc personBest_spec)

lemma global_best_le: "e \<in> set es \<Longrightarrow> global_best_spec q es \<le> personBest q (snd e)"
  unfolding global_best_spec_def personBest_spec by (rule least_of_le) simp

lemma owner_in_store: "owner_spec q d = Some n \<Longrightarrow> n \<in> fst ` set d"
  unfolding owner_spec_def by (auto simp: find_Some_iff) (metis fst_conv image_iff nth_mem)

lemma second_best_snoc_other:
  "fst e \<noteq> n \<Longrightarrow>
   second_best_spec q (es @ [e]) n = min (second_best_spec q es n) (personBest q (snd e))"
  by (simp add: second_best_spec_def least_of_snoc personBest_spec)

lemma second_best_snoc_same:
  "fst e = n \<Longrightarrow> second_best_spec q (es @ [e]) n = second_best_spec q es n"
  by (simp add: second_best_spec_def)

lemma second_best_fresh:
  "n \<notin> fst ` set es \<Longrightarrow> second_best_spec q es n = global_best_spec q es"
proof -
  assume "n \<notin> fst ` set es"
  then have "filter (\<lambda>e. fst e \<noteq> n) es = es" by (auto simp: filter_id_conv)
  then show ?thesis by (simp add: second_best_spec_def global_best_spec_def)
qed

lemma owner_snoc_new:
  assumes "personBest q (snd e) < global_best_spec q es"
  shows "owner_spec q (es @ [e]) = Some (fst e)"
proof -
  let ?p = "personBest q (snd e)"
  have g: "global_best_spec q (es @ [e]) = ?p"
    using assms by (auto simp: global_best_snoc min_def)
  have "\<forall>x \<in> set es. person_best_spec q (snd x) \<noteq> ?p"
    using assms global_best_le [of _ es q] by (fastforce simp: personBest_spec)
  then have "find (\<lambda>x. person_best_spec q (snd x) = ?p) es = None"
    by (auto simp: find_None_iff)
  then show ?thesis
    by (simp add: owner_spec_def g find_append personBest_spec)
qed

lemma owner_snoc_old:
  assumes "\<not> personBest q (snd e) < global_best_spec q es" "owner_spec q es = Some n"
  shows "owner_spec q (es @ [e]) = Some n"
proof -
  have g: "global_best_spec q (es @ [e]) = global_best_spec q es"
    using assms(1) by (auto simp: global_best_snoc min_def)
  show ?thesis using assms(2)
    by (auto simp: owner_spec_def g find_append split: option.splits)
qed

lemma match_inv_holds:
  "distinct (map fst d) \<Longrightarrow> match_inv q d (match_entries q d)"
proof (induction d rule: rev_induct)
  case Nil
  show ?case
    by (simp add: match_inv_def match_entries_Nil match_init_def global_best_spec_def
        second_best_spec_def least_of_Nil)
next
  case (snoc e es)
  let ?r = "match_entries q es"
  let ?p = "personBest q (snd e)"
  have fresh: "fst e \<notin> fst ` set es" and dist: "distinct (map fst es)"
    using snoc.prems by auto
  have inv: "match_inv q es ?r" using snoc.IH dist by simp
  have B: "bestDist ?r = global_best_spec q es"
    and S: "secondBest ?r = second_best_spec q es (bestName ?r)"
    using inv by (simp_all add: match_inv_def)
  have bnd: "bestDist ?r \<le> PInf" "secondBest ?r \<le> PInf" "bestDist ?r \<le> secondBest ?r"
    using match_bounds [of q es] by simp_all
  have nn: "bestDist ?r \<noteq> NaN" "secondBest ?r \<noteq> NaN"
    using bnd by (auto dest: less_PInf_not_NaN)
  have p: "?p \<le> PInf" by (rule personBest_le_PInf)
  consider (new) "?p < bestDist ?r"
    | (second) "\<not> ?p < bestDist ?r" "?p < secondBest ?r"
    | (none) "\<not> ?p < bestDist ?r" "\<not> ?p < secondBest ?r"
    by blast
  then show ?case
  proof cases
    case new
    have r': "match_entries q (es @ [e])
              = \<lparr>bestName = fst e, bestDist = ?p, secondBest = bestDist ?r\<rparr>"
      using new nn by (simp add: match_entries_snoc top2_update_def Let_def js_lt_less)
    have "?p < PInf" using new bnd(1) by simp
    moreover have "global_best_spec q (es @ [e]) = ?p"
      using new B by (auto simp: global_best_snoc min_def)
    moreover have "second_best_spec q (es @ [e]) (fst e) = global_best_spec q es"
      using fresh by (simp add: second_best_snoc_same second_best_fresh)
    moreover have "owner_spec q (es @ [e]) = Some (fst e)"
      using new B by (simp add: owner_snoc_new)
    ultimately show ?thesis by (simp add: match_inv_def r' B)
  next
    case second
    have r': "match_entries q (es @ [e]) = ?r\<lparr>secondBest := ?p\<rparr>"
      using second nn by (simp add: match_entries_snoc top2_update_def Let_def js_lt_less)
    have lt: "bestDist ?r < PInf" using second bnd p by auto
    then have own: "owner_spec q es = Some (bestName ?r)"
      using inv by (simp add: match_inv_def)
    then have ne: "fst e \<noteq> bestName ?r" using owner_in_store fresh by metis
    have "global_best_spec q (es @ [e]) = bestDist ?r"
      using second B by (auto simp: global_best_snoc min_def)
    moreover have "second_best_spec q (es @ [e]) (bestName ?r) = ?p"
      using second ne S by (auto simp: second_best_snoc_other min_def)
    moreover have "owner_spec q (es @ [e]) = Some (bestName ?r)"
      using second(1) own B by (simp add: owner_snoc_old)
    ultimately show ?thesis using lt by (simp add: match_inv_def r')
  next
    case none
    have r': "match_entries q (es @ [e]) = ?r"
      using none nn by (simp add: match_entries_snoc top2_update_def Let_def js_lt_less)
    have g: "global_best_spec q (es @ [e]) = bestDist ?r"
      using none B by (auto simp: global_best_snoc min_def)
    have s: "second_best_spec q (es @ [e]) (bestName ?r) = secondBest ?r"
    proof (cases "fst e = bestName ?r")
      case True
      then show ?thesis using S by (simp add: second_best_snoc_same)
    next
      case False
      then show ?thesis using none(2) S by (auto simp: second_best_snoc_other min_def)
    qed
    have o: "bestDist ?r < PInf \<Longrightarrow> owner_spec q (es @ [e]) = Some (bestName ?r)"
      using inv none(1) B by (simp add: match_inv_def owner_snoc_old)
    have u: "\<not> bestDist ?r < PInf \<Longrightarrow> bestName ?r = ''Unknown''"
      using inv by (simp add: match_inv_def)
    show ?thesis using g s o u by (simp add: match_inv_def r')
  qed
qed

section \<open>Distances between finite descriptors\<close>

lemma foldl_invariant:
  "P acc \<Longrightarrow> (\<And>a x. P a \<Longrightarrow> x \<in> set xs \<Longrightarrow> P (f a x)) \<Longrightarrow> P (foldl f acc xs)"
  by (induction xs arbitrary: acc) simp_all

lemma finite_descriptor_at:
  "finite_descriptor d \<Longrightarrow> i < length d \<Longrightarrow> \<exists>r. at_index d i = Fin r"
proof -
  assume "finite_descriptor d" "i < length d"
  then have "case d ! i of Fin r \<Rightarrow> True | _ \<Rightarrow> False"
    by (simp add: finite_descriptor_def list_all_length)
  then show ?thesis
    using \<open>i < length d\<close> by (cases "d ! i") (simp_all add: at_index_def)
qed

lemma euclidean_finite:
  assumes "finite_descriptor a" "finite_descriptor b" "length a \<le> length b"
  shows "\<exists>x. euclidean a b = Fin x"
proof -
  let ?f = "\<lambda>s i. let d = js_sub (at_index a i) (at_index b i) in js_add s (js_mul d d)"
  have "\<exists>y. 0 \<le> y \<and> foldl ?f (Fin 0) [0..<length a] = Fin y"
  proof (rule foldl_invariant [where P = "\<lambda>s. \<exists>y. 0 \<le> y \<and> s = Fin y"])
    show "\<exists>y. 0 \<le> y \<and> Fin 0 = Fin y" by simp
  next
    fix s i
    assume s: "\<exists>y. 0 \<le> y \<and> s = Fin y" and i: "i \<in> set [0..<length a]"
    then obtain y where y: "0 \<le> y" "s = Fin y" by blast
    from i assms obtain u v where "at_index a i = Fin u" "at_index b i = Fin v"
      using finite_descriptor_at [of a i] finite_descriptor_at [of b i] by auto
    then show "\<exists>y. 0 \<le> y \<and> ?f s i = Fin y"
      using y by (simp add: js_sub_def round_double_nonneg)
  qed
  then show ?thesis by (auto simp: euclidean_def)
qed

lemma euclidean_self:
  assumes "finite_descriptor a"
  shows "euclidean a a = Fin 0"
proof -
  let ?f = "\<lambda>s i. let d = js_sub (at_index a i) (at_index a i) in js_add s (js_mul d d)"
  have "foldl ?f (Fin 0) [0..<length a] = Fin 0"
  proof (rule foldl_invariant [where P = "\<lambda>s. s = Fin 0"])
    show "Fin 0 = Fin 0" by simp
  next
    fix s i
    assume s: "s = Fin 0" and i: "i \<in> set [0..<length a]"
    from i assms obtain u where "at_index a i = Fin u"
      using finite_descriptor_at [of a i] by auto
    then show "?f s i = Fin 0"
      using s by (simp add: js_sub_def round_double_zero)
  qed
  then show ?thesis by (simp add: euclidean_def round_double_zero)
qed

lemma js_sqrt_ge_zero: "Fin 0 \<le> js_sqrt v"
  by (cases v) (auto simp: less_eq_jsnum_def round_double_nonneg)

lemma euclidean_ge_zero: "Fin 0 \<le> euclidean a b"
  by (simp add: euclidean_def js_sqrt_ge_zero)

lemma least_of_ge: "(\<And>x. x \<in> set xs \<Longrightarrow> c \<le> x) \<Longrightarrow> c \<le> PInf \<Longrightarrow> c \<le> least_of xs"
  by (simp add: least_of_def)

lemma personBest_zero:
  assumes "s \<in> set l" "euclidean q s = Fin 0"
  shows "personBest q l = Fin 0"
proof -
  have "Fin 0 \<le> least_of (map (euclidean q) l)"
  proof (rule least_of_ge)
    show "Fin 0 \<le> PInf" by (simp add: less_eq_jsnum_def)
  qed (auto simp: euclidean_ge_zero)
  moreover have "least_of (map (euclidean q) l) \<le> Fin 0"
    using assms by (metis least_of_le image_eqI list.set_map)
  ultimately show ?thesis by (simp add: personBest_spec person_best_spec_def)
qed

lemma personBest_finite:
  assumes "s \<in> set l" "euclidean q s = Fin x"
  shows "personBest q l < PInf"
proof -
  have "least_of (map (euclidean q) l) \<le> Fin x"
    using assms by (metis least_of_le image_eqI list.set_map)
  moreover have "Fin x < PInf" by (simp add: less_jsnum_def)
  ultimately show ?thesis by (simp add: personBest_spec person_best_spec_def)
qed

lemma match_single:
  "match_entries q [(n, l)] =
     (if personBest q l < PInf then \<lparr>bestName = n, bestDist = personBest q l, secondBest = PInf\<rparr>
      else match_init)"
  by (simp add: match_entries_def top2_update_def match_init_def js_lt_less)

section \<open>A single enrolled person\<close>

text \<open>
  C3: when the store holds exactly one person, \<^verbatim>\<open>matchDescriptor\<close> returns \<open>PInf\<close> as
  second-best, whatever the person's descriptor list and the query. For a query and a stored
  descriptor of the data model (finite numbers, equal lengths) the best distance is finite,
  so the second-best differs from it. A query at distance 0 from one of the person's stored
  descriptors is accepted under the default thresholds 0.5 and 0.05: \<^verbatim>\<open>verify\<close> reports
  the person's name with distance 0.
\<close>

theorem single_person_second_best:
  assumes "db st = [(n, l)]"
  shows "secondBest (fst (matchDescriptor q st)) = PInf
     \<and> (\<forall>s \<in> set l. finite_descriptor q \<and> finite_descriptor s \<and> length q = length s
          \<longrightarrow> bestDist (fst (matchDescriptor q st)) \<noteq> secondBest (fst (matchDescriptor q st)))
     \<and> (\<forall>s \<in> set l. euclidean q s = Fin 0 \<and> distanceThreshold st = Fin (1 / 2)
              \<and> secondBestMargin st = Fin (1 / 20)
          \<longrightarrow> fst (verify_tick (Some q) st) = (n, Fin 0))"
proof (intro conjI ballI impI)
  show "secondBest (fst (matchDescriptor q st)) = PInf"
    using assms by (simp add: matchDescriptor_def match_single match_init_def)
next
  fix s
  assume s: "s \<in> set l"
    and "finite_descriptor q \<and> finite_descriptor s \<and> length q = length s"
  then obtain x where "euclidean q s = Fin x"
    using euclidean_finite [of q s] by auto
  with s have "personBest q l < PInf" by (rule personBest_finite)
  then show "bestDist (fst (matchDescriptor q st)) \<noteq> secondBest (fst (matchDescriptor q st))"
    using assms by (auto simp: matchDescriptor_def match_single)
next
  fix s
  assume s: "s \<in> set l"
    and h: "euclidean q s = Fin 0 \<and> distanceThreshold st = Fin (1 / 2)
              \<and> secondBestMargin st = Fin (1 / 20)"
  then have z: "personBest q l = Fin 0" using personBest_zero by blast
  have "Fin 0 < PInf" by (simp add: less_jsnum_def)
  then show "fst (verify_tick (Some q) st) = (n, Fin 0)"
    using assms h z
    by (simp add: verify_tick_def matchDescriptor_def match_single js_ge_def js_sub_def)
qed

theorem single_person_second_best_witness:
  "db st_alice = [(''Alice'', [[Fin 3, Fin 4], [Fin 3, Fin 4]])]
   \<and> secondBest (fst (matchDescriptor [Fin 3, Fin 4] st_alice)) = PInf
   \<and> bestDist (fst (matchDescriptor [Fin 3, Fin 4] st_alice)) \<noteq> PInf
   \<and> fst (verify_tick (Some [Fin 3, Fin 4]) st_alice) = (''Alice'', Fin 0)"
proof -
  have d: "db st_alice = [(''Alice'', [[Fin 3, Fin 4], [Fin 3, Fin 4]])]"
    by (simp add: st_alice_def)
  have f: "finite_descriptor [Fin 3, Fin 4]" by (simp add: finite_descriptor_def)
  have e: "euclidean [Fin 3, Fin 4] [Fin 3, Fin 4] = Fin 0" using f by (rule euclidean_self)
  have t: "distanceThreshold st_alice = Fin (1 / 2)" "secondBestMargin st_alice = Fin (1 / 20)"
    by (simp_all add: st_alice_def)
  show ?thesis
    using single_person_second_best [OF d, of "[Fin 3, Fin 4]"] d e f t by auto
qed

section \<open>The result is ordered and the store is only read\<close>

text \<open>
  C10: for every store and every query, the result of \<^verbatim>\<open>matchDescriptor\<close> satisfies
  \<^verbatim>\<open>bestDist <= secondBest\<close> (the language's comparison), and the recognizer, its
  descriptor table included, is left as it was.
\<close>

theorem matchDescriptor_ordered_pure:
  "js_le (bestDist (fst (matchDescriptor q st))) (secondBest (fst (matchDescriptor q st)))
   \<and> snd (matchDescriptor q st) = st"
proof -
  have "secondBest (match_entries q (db st)) \<noteq> NaN"
    using match_bounds [of q "db st"] by (auto dest: less_PInf_not_NaN)
  then show ?thesis
    using match_bounds [of q "db st"] by (simp add: matchDescriptor_def js_le_less_eq)
qed

section \<open>Evaluating the matcher on examples\<close>

lemma upt_2: "[0..<2] = [0, Suc 0]"
  by (simp add: upt_rec numeral_2_eq_2)

lemma sqrt_25: "sqrt 25 = 5"
  using real_sqrt_abs2 [of 5] by simp

lemma sqrt_100: "sqrt 100 = 10"
  using real_sqrt_abs2 [of 10] by simp

lemma euclidean_origin_3_4: "euclidean [Fin 0, Fin 0] [Fin 3, Fin 4] = Fin 5"
  by (simp add: euclidean_def upt_2 at_index_def js_sub_def sqrt_25 round_double_numeral)

lemma euclidean_origin_6_8: "euclidean [Fin 0, Fin 0] [Fin 6, Fin 8] = Fin 10"
  by (simp add: euclidean_def upt_2 at_index_def js_sub_def sqrt_100 round_double_numeral)

lemma match_two:
  "match_entries [Fin 0, Fin 0] (db st_two) = \<lparr>bestName = ''Alice'', bestDist = Fin 5, secondBest = Fin 10\<rparr>"
  by (simp add: st_two_def match_entries_def top2_update_def match_init_def personBest_def
      euclidean_origin_3_4 euclidean_origin_6_8)

section \<open>Best, owner and second-best\<close>

text \<open>
  C2, as amended: for every query and every store (an object: its names are distinct),
  \<^verbatim>\<open>matchDescriptor\<close> returns as \<^verbatim>\<open>bestDist\<close> the minimum over all enrolled persons of
  the person-best, which is the minimum Euclidean distance over the person's stored
  descriptors (\<open>PInf\<close> when there is none to compare); as \<^verbatim>\<open>secondBest\<close> the minimum
  person-best among the persons other than the one named by \<^verbatim>\<open>bestName\<close>, so that further
  descriptors of the same person never contribute to it; and as \<^verbatim>\<open>bestName\<close> the owner of
  the global minimum when that minimum is not \<open>PInf\<close>, and \<^verbatim>\<open>Unknown\<close> when it is.
\<close>

theorem matchDescriptor_top2:
  assumes "distinct (map fst (db st))"
  shows "bestDist (fst (matchDescriptor q st)) = global_best_spec q (db st)
     \<and> secondBest (fst (matchDescriptor q st))
         = second_best_spec q (db st) (bestName (fst (matchDescriptor q st)))
     \<and> (if bestDist (fst (matchDescriptor q st)) = PInf
         then bestName (fst (matchDescriptor q st)) = ''Unknown''
         else owner_spec q (db st) = Some (bestName (fst (matchDescriptor q st))))
     \<and> personBest q l = person_best_spec q l"
proof -
  let ?r = "match_entries q (db st)"
  have inv: "match_inv q (db st) ?r" using assms by (rule match_inv_holds)
  have "bestDist ?r \<le> PInf" using match_bounds [of q "db st"] by simp
  then have "(bestDist ?r < PInf) = (bestDist ?r \<noteq> PInf)" by auto
  then show ?thesis
    using inv by (simp add: match_inv_def matchDescriptor_def personBest_spec)
qed

theorem matchDescriptor_top2_witness:
  "distinct (map fst (db st_two))
   \<and> global_best_spec [Fin 0, Fin 0] (db st_two) = Fin 5
   \<and> second_best_spec [Fin 0, Fin 0] (db st_two) ''Alice'' = Fin 10
   \<and> owner_spec [Fin 0, Fin 0] (db st_two) = Some ''Alice''"
proof -
  have d: "distinct (map fst (db st_two))" by (simp add: st_two_def)
  show ?thesis
    using matchDescriptor_top2 [OF d, of "[Fin 0, Fin 0]"] d
    by (simp add: matchDescriptor_def match_two)
qed

text \<open>
  The claim as stated, that \<^verbatim>\<open>bestName\<close> always is the owner of the global minimum, fails
  for a person enrolled with an empty descriptor list: the minimum \<open>PInf\<close> is that person's
  person-best, and the name returned is \<^verbatim>\<open>Unknown\<close>.
\<close>

theorem owner_of_infinite_minimum_counterexample:
  "owner_spec [Fin 3, Fin 4] (db st_no_samples) = Some ''Alice''
   \<and> bestName (fst (matchDescriptor [Fin 3, Fin 4] st_no_samples)) = ''Unknown''"
  by (simp add: st_no_samples_def owner_spec_def global_best_spec_def person_best_spec_def
      least_of_def matchDescriptor_def match_entries_def top2_update_def match_init_def
      personBest_def)

section \<open>The acceptance rule\<close>

lemma personBest_ge_zero: "Fin 0 \<le> personBest q l"
  unfolding personBest_spec person_best_spec_def
proof (rule least_of_ge)
  show "Fin 0 \<le> PInf" by (simp add: less_eq_jsnum_def)
qed (auto simp: euclidean_ge_zero)

lemma match_ge_zero:
  "Fin 0 \<le> bestDist (match_entries q d) \<and> Fin 0 \<le> secondBest (match_entries q d)"
proof (induction d rule: rev_induct)
  case Nil
  show ?case by (simp add: match_entries_Nil match_init_def less_eq_jsnum_def)
next
  case (snoc e es)
  then show ?case
    using personBest_ge_zero [of q "snd e"]
    by (simp add: match_entries_snoc top2_update_def Let_def)
qed

lemma js_accept_rounded:
  "Fin 0 \<le> best \<Longrightarrow>
   (js_le best (Fin t) \<and> js_ge (js_sub second best) (Fin m)) = accept_rounded t m best second"
  by (cases best; cases second)
    (auto simp: accept_rounded_def js_ge_def js_sub_def less_eq_jsnum_def)

lemma tiny_bounds: "0 < tiny" "tiny \<le> 1 / 2" "\<bar>tiny\<bar> = tiny"
  by (simp_all add: tiny_def)

lemma round_double_tiny:
  "round_double tiny = tiny" "round_double (- tiny) = - tiny"
  "round_double (tiny * tiny) = tiny * tiny" "round_double (1 - tiny) = 1"
proof -
  show "round_double tiny = tiny" "round_double (- tiny) = - tiny"
    unfolding tiny_def by (simp_all only: round_double_pow2_neg round_double_minus_pow2_neg)
  have e: "tiny * tiny = 1 / 2 ^ 120" by (simp add: tiny_def)
  have "round_double (1 / 2 ^ 120) = 1 / 2 ^ 120" by (rule round_double_pow2_neg) simp
  then show "round_double (tiny * tiny) = tiny * tiny" by (simp only: e)
  show "round_double (1 - tiny) = 1"
    unfolding tiny_def by (rule round_double_below_one)
qed

lemma euclidean_origin_tiny: "euclidean [Fin 0] [Fin tiny] = Fin tiny"
  by (simp add: euclidean_def at_index_def js_sub_def round_double_tiny tiny_bounds)

lemma euclidean_origin_one: "euclidean [Fin 0] [Fin 1] = Fin 1"
  by (simp add: euclidean_def at_index_def js_sub_def round_double_one)

lemma match_margin:
  "match_entries [Fin 0] (db st_margin)
   = \<lparr>bestName = ''Alice'', bestDist = Fin tiny, secondBest = Fin 1\<rparr>"
  using tiny_bounds
  by (simp add: st_margin_def match_entries_def top2_update_def match_init_def personBest_def
      euclidean_origin_tiny euclidean_origin_one)

text \<open>
  C1, as amended: for every query descriptor and every store, \<^verbatim>\<open>verify\<close> attributes the
  match to the best-matching name if and only if the best distance is less than or equal to
  the configured threshold and the second-best distance minus the best distance, as the
  subtraction of doubles gives it (the exact difference rounded to the nearest double), is
  greater than or equal to the configured margin, both comparisons inclusive; otherwise the
  result is \<^verbatim>\<open>Unknown\<close>. The first conjunct states it with the language's operators, the
  second with the order of the reals for a finite threshold and margin.
\<close>

theorem acceptance_rule:
  "fst (verify_tick (Some q) st) =
     (if js_le (bestDist (fst (matchDescriptor q st))) (distanceThreshold st)
         \<and> js_ge (js_sub (secondBest (fst (matchDescriptor q st)))
                          (bestDist (fst (matchDescriptor q st))))
                  (secondBestMargin st)
      then bestName (fst (matchDescriptor q st)) else ''Unknown'',
      bestDist (fst (matchDescriptor q st)))
   \<and> (distanceThreshold st = Fin t \<and> secondBestMargin st = Fin m \<longrightarrow>
        fst (fst (verify_tick (Some q) st)) =
          (if accept_rounded t m (bestDist (fst (matchDescriptor q st)))
                (secondBest (fst (matchDescriptor q st)))
           then bestName (fst (matchDescriptor q st)) else ''Unknown''))"
proof (intro conjI impI)
  show j: "fst (verify_tick (Some q) st) =
     (if js_le (bestDist (fst (matchDescriptor q st))) (distanceThreshold st)
         \<and> js_ge (js_sub (secondBest (fst (matchDescriptor q st)))
                          (bestDist (fst (matchDescriptor q st))))
                  (secondBestMargin st)
      then bestName (fst (matchDescriptor q st)) else ''Unknown'',
      bestDist (fst (matchDescriptor q st)))"
    by (simp add: verify_tick_def matchDescriptor_def Let_def)
  assume "distanceThreshold st = Fin t \<and> secondBestMargin st = Fin m"
  then show "fst (fst (verify_tick (Some q) st)) =
          (if accept_rounded t m (bestDist (fst (matchDescriptor q st)))
                (secondBest (fst (matchDescriptor q st)))
           then bestName (fst (matchDescriptor q st)) else ''Unknown'')"
    unfolding j using match_ge_zero [of q "db st"]
    by (simp add: js_accept_rounded matchDescriptor_def)
qed

theorem acceptance_rule_witness:
  "distanceThreshold st_two = Fin 5 \<and> secondBestMargin st_two = Fin 5
   \<and> bestDist (fst (matchDescriptor [Fin 0, Fin 0] st_two)) = Fin 5
   \<and> secondBest (fst (matchDescriptor [Fin 0, Fin 0] st_two)) = Fin 10
   \<and> accept_rounded 5 5 (Fin 5) (Fin 10)
   \<and> fst (verify_tick (Some [Fin 0, Fin 0]) st_two) = (''Alice'', Fin 5)"
proof -
  have t: "distanceThreshold st_two = Fin 5 \<and> secondBestMargin st_two = Fin 5"
    by (simp add: st_two_def)
  have a: "accept_rounded 5 5 (Fin 5) (Fin 10)"
    by (simp add: accept_rounded_def round_double_numeral)
  show ?thesis
    using acceptance_rule [of "[Fin 0, Fin 0]" st_two 5 5] t a
    by (simp add: matchDescriptor_def match_two js_ge_def js_sub_def round_double_numeral)
qed

text \<open>
  The claim as stated, with the exact difference, fails at the boundary of the margin: with
  the persons at the distances \<open>1 / 2 ^ 60\<close> and 1 and the margin 1, the exact difference is
  below the margin and the rule of the claim rejects, but the doubles below 1 are
  \<open>1 / 2 ^ 53\<close> apart, the subtraction gives 1, and \<^verbatim>\<open>verify\<close> reports the best name.
\<close>

theorem acceptance_exact_gap_counterexample:
  "distanceThreshold st_margin = Fin (1 / 2) \<and> secondBestMargin st_margin = Fin 1
   \<and> bestDist (fst (matchDescriptor [Fin 0] st_margin)) = Fin (1 / 2 ^ 60)
   \<and> secondBest (fst (matchDescriptor [Fin 0] st_margin)) = Fin 1
   \<and> \<not> accept_spec (1 / 2) 1 (Fin (1 / 2 ^ 60)) (Fin 1)
   \<and> fst (verify_tick (Some [Fin 0]) st_margin) = (''Alice'', Fin (1 / 2 ^ 60))"
proof -
  have t: "distanceThreshold st_margin = Fin (1 / 2)" "secondBestMargin st_margin = Fin 1"
    by (simp_all add: st_margin_def)
  have m: "fst (matchDescriptor [Fin 0] st_margin)
           = \<lparr>bestName = ''Alice'', bestDist = Fin tiny, secondBest = Fin 1\<rparr>"
    by (simp add: matchDescriptor_def match_margin)
  have n: "\<not> accept_spec (1 / 2) 1 (Fin tiny) (Fin 1)"
    using tiny_bounds by (simp add: accept_spec_def)
  have v: "fst (verify_tick (Some [Fin 0]) st_margin) = (''Alice'', Fin tiny)"
    using tiny_bounds
    by (simp add: verify_tick_def matchDescriptor_def match_margin t js_ge_def js_sub_def
        round_double_tiny)
  show ?thesis using t m n v by (simp add: tiny_def)
qed

section \<open>Deleting a name\<close>

lemma bestName_in_store:
  "bestName (match_entries q d) \<in> insert ''Unknown'' (fst ` set d)"
proof (induction d rule: rev_induct)
  case Nil
  show ?case by (simp add: match_entries_Nil match_init_def)
next
  case (snoc e es)
  then show ?case
    by (auto simp: match_entries_snoc top2_update_def Let_def)
qed

lemma delete_key_names: "fst ` set (delete_key name d) = fst ` set d - {name}"
  by (auto simp: delete_key_def)

lemma db_saveDB: "db (saveDB st) = db st"
  by (simp add: saveDB_def)

text \<open>
  C4, as amended: after \<^verbatim>\<open>delete(name)\<close>, for a name other than \<^verbatim>\<open>Unknown\<close>, that name
  is returned neither as \<^verbatim>\<open>bestName\<close> nor as the name that \<^verbatim>\<open>verify\<close> reports, for any
  query; and matching any query against an empty store gives \<^verbatim>\<open>Unknown\<close> with
  \<^verbatim>\<open>bestDist\<close> equal to \<open>PInf\<close>.
\<close>

theorem delete_removes_name:
  "(name \<noteq> ''Unknown'' \<longrightarrow>
      bestName (fst (matchDescriptor q (delete name st))) \<noteq> name
      \<and> fst (fst (verify_tick (Some q) (delete name st))) \<noteq> name)
   \<and> (db st = [] \<longrightarrow>
        bestName (fst (matchDescriptor q st)) = ''Unknown''
        \<and> bestDist (fst (matchDescriptor q st)) = PInf
        \<and> fst (fst (verify_tick (Some q) st)) = ''Unknown'')"
proof (intro conjI impI)
  assume n: "name \<noteq> ''Unknown''"
  have "name \<notin> insert ''Unknown'' (fst ` set (db (delete name st)))"
    using n by (simp add: delete_def db_saveDB delete_key_names)
  then show b: "bestName (fst (matchDescriptor q (delete name st))) \<noteq> name"
    using bestName_in_store [of q "db (delete name st)"]
    unfolding matchDescriptor_def by (metis fst_conv)
  show "fst (fst (verify_tick (Some q) (delete name st))) \<noteq> name"
    using b n by (simp add: verify_tick_def matchDescriptor_def Let_def)
next
  assume "db st = []"
  then show "bestName (fst (matchDescriptor q st)) = ''Unknown''"
    "bestDist (fst (matchDescriptor q st)) = PInf"
    "fst (fst (verify_tick (Some q) st)) = ''Unknown''"
    by (simp_all add: verify_tick_def matchDescriptor_def match_entries_Nil match_init_def Let_def)
qed

theorem delete_removes_name_witness:
  "''Alice'' \<noteq> ''Unknown''
   \<and> bestName (fst (matchDescriptor [Fin 3, Fin 4] (delete ''Alice'' st_alice))) \<noteq> ''Alice''
   \<and> db (delete ''Alice'' st_alice) = []
   \<and> bestDist (fst (matchDescriptor [Fin 3, Fin 4] (delete ''Alice'' st_alice))) = PInf"
proof -
  have d: "db (delete ''Alice'' st_alice) = []"
    by (simp add: delete_def saveDB_def delete_key_def st_alice_def)
  show ?thesis
    using delete_removes_name [of "''Alice''" "[Fin 3, Fin 4]" st_alice]
      delete_removes_name [of "''Alice''" "[Fin 3, Fin 4]" "delete ''Alice'' st_alice"] d
    by simp
qed

text \<open>
  The claim as stated fails for the name \<^verbatim>\<open>Unknown\<close> itself: after it is deleted, a query
  still gives \<^verbatim>\<open>Unknown\<close>, the name of no match.
\<close>

theorem delete_sentinel_counterexample:
  "bestName (fst (matchDescriptor [Fin 3, Fin 4] (delete ''Unknown'' st_unknown))) = ''Unknown''
   \<and> fst (fst (verify_tick (Some [Fin 3, Fin 4]) (delete ''Unknown'' st_unknown))) = ''Unknown''"
  by (simp add: delete_def saveDB_def delete_key_def st_unknown_def verify_tick_def
      matchDescriptor_def match_entries_def match_init_def Let_def)

section \<open>Enrollment and the store\<close>

text \<open>
  C5: for every name and every initial store, if the enrollment loop completes having
  collected zero descriptors, \<^verbatim>\<open>enroll\<close> throws its error and both the descriptor table
  and the persisted document are as they were before the call.
\<close>

theorem enroll_no_samples:
  assumes "enroll_loop st True 0 0 [] ticks = Some []"
  shows "enroll name True ticks st = Some (Inl NoSamples, st\<lparr>running := False\<rparr>)
     \<and> db (st\<lparr>running := False\<rparr>) = db st
     \<and> localStorage (st\<lparr>running := False\<rparr>) = localStorage st"
  using assms by (simp add: enroll_def)

theorem enroll_no_samples_witness:
  "enroll_loop st_alice True 0 0 [] [(NoFace, False), (NoFace, True)] = Some []
   \<and> (\<exists>st'. enroll ''Bob'' True [(NoFace, False), (NoFace, True)] st_alice = Some (Inl NoSamples, st')
        \<and> db st' = db st_alice \<and> localStorage st' = None)"
proof -
  have l: "enroll_loop st_alice True 0 0 [] [(NoFace, False), (NoFace, True)] = Some []"
    by (simp add: st_alice_def)
  have "localStorage st_alice = None" by (simp add: st_alice_def)
  then show ?thesis
    using enroll_no_samples [OF l, of "''Bob''"] l by auto
qed

text \<open>
  What assigning a name does to the entries of the table.
\<close>

lemma filter_insert_index:
  "filter (\<lambda>e. fst e \<noteq> name) (insert_index i (name, v) d) = filter (\<lambda>e. fst e \<noteq> name) d"
  by (induction d) (auto split: option.splits)

lemma filter_assign_key:
  "filter (\<lambda>e. fst e \<noteq> name) (assign_key name v d) = filter (\<lambda>e. fst e \<noteq> name) d"
proof -
  have "filter (\<lambda>e. fst e \<noteq> name) (map (\<lambda>entry. if fst entry = name then (name, v) else entry) d)
        = filter (\<lambda>e. fst e \<noteq> name) d"
    by (induction d) auto
  then show ?thesis
    by (simp add: assign_key_def filter_insert_index split: option.splits)
qed

lemma map_of_update_in_place_at:
  "map_of (map (\<lambda>entry. if fst entry = name then (name, v) else entry) d) x
   = (if x = name \<and> name \<in> fst ` set d then Some v else map_of d x)"
proof (induction d)
  case Nil
  show ?case by simp
next
  case (Cons e d)
  show ?case
  proof (cases "fst e = name")
    case True
    then show ?thesis using Cons.IH by auto
  next
    case False
    then show ?thesis using Cons.IH by (cases e) (force simp: image_iff)
  qed
qed

lemma map_of_update_in_place:
  "name \<in> fst ` set d \<Longrightarrow>
   map_of (map (\<lambda>entry. if fst entry = name then (name, v) else entry) d) = (map_of d)(name \<mapsto> v)"
  by (rule ext) (simp add: map_of_update_in_place_at)

lemma map_of_insert_index:
  "name \<notin> fst ` set d \<Longrightarrow> map_of (insert_index i (name, v) d) = (map_of d)(name \<mapsto> v)"
proof (induction d)
  case Nil
  show ?case by simp
next
  case (Cons e d)
  then have "fst e \<noteq> name" "name \<notin> fst ` set d" by auto
  with Cons.IH show ?case
    by (cases e) (auto simp: fun_eq_iff split: option.splits)
qed

lemma map_of_append_new:
  "name \<notin> fst ` set d \<Longrightarrow> map_of (d @ [(name, v)]) = (map_of d)(name \<mapsto> v)"
  by (induction d) (auto simp: fun_eq_iff)

lemma map_of_assign_key:
  assumes "name \<noteq> ''__proto__'' \<or> name \<in> fst ` set d"
  shows "map_of (assign_key name v d) = (map_of d)(name \<mapsto> v)"
proof (cases "name \<in> fst ` set d")
  case True
  then show ?thesis by (simp add: assign_key_def map_of_update_in_place)
next
  case False
  with assms have "name \<noteq> ''__proto__''" by simp
  with False show ?thesis
    by (simp add: assign_key_def map_of_insert_index map_of_append_new del: map_of_append
        split: option.splits)
qed

lemma assign_key_proto:
  "''__proto__'' \<notin> fst ` set d \<Longrightarrow> assign_key ''__proto__'' v d = d"
  by (simp add: assign_key_def)

lemma map_of_serialized:
  "name \<noteq> ''__proto__'' \<Longrightarrow>
   map_of (map (\<lambda>entry. (fst entry, g (snd entry))) (filter (\<lambda>entry. fst entry \<noteq> ''__proto__'') d)) name
   = map_option g (map_of d name)"
  by (induction d) auto

text \<open>
  What \<^verbatim>\<open>enroll\<close> does with a non-empty collected list for a name other than
  \<^verbatim>\<open>__proto__\<close>, when the table is an object: the table maps the name to the collected
  list, the other entries are as before, and the persisted document maps the name to the
  arrays of the collected numbers.
\<close>

lemma enroll_replaces_other_names:
  assumes "enroll_loop st True 0 0 [] ticks = Some collected" "collected \<noteq> []"
    and "\<not> db_primitive st" "name \<noteq> ''__proto__''"
  shows "\<exists>st' kvs. enroll name True ticks st = Some (Inr (length collected), st')
     \<and> map_of (db st') = (map_of (db st))(name \<mapsto> collected)
     \<and> filter (\<lambda>e. fst e \<noteq> name) (db st') = filter (\<lambda>e. fst e \<noteq> name) (db st)
     \<and> localStorage st' = Some (Doc (JObj kvs))
     \<and> map_of kvs name = Some (JArr (map (\<lambda>f32. JArr (map stringify_number f32)) collected))"
proof -
  let ?d = "assign_key name collected (db st)"
  let ?g = "\<lambda>l. JArr (map (\<lambda>f32. JArr (map stringify_number f32)) l)"
  let ?kvs = "map (\<lambda>entry. (fst entry, ?g (snd entry)))
                (filter (\<lambda>entry. fst entry \<noteq> ''__proto__'') ?d)"
  let ?st' = "st\<lparr>running := False, db := ?d, localStorage := Some (Doc (JObj ?kvs))\<rparr>"
  have m: "map_of ?d = (map_of (db st))(name \<mapsto> collected)"
    using assms(4) by (simp add: map_of_assign_key)
  have "map_of ?kvs name = map_option ?g (map_of ?d name)"
    using assms(4) by (rule map_of_serialized)
  then have k: "map_of ?kvs name = Some (?g collected)" by (simp add: m)
  have e: "enroll name True ticks st = Some (Inr (length collected), ?st')"
    using assms by (simp add: enroll_def replace_def saveDB_def serializable_def)
  have "map_of (db ?st') = (map_of (db st))(name \<mapsto> collected)
     \<and> filter (\<lambda>e. fst e \<noteq> name) (db ?st') = filter (\<lambda>e. fst e \<noteq> name) (db st)
     \<and> localStorage ?st' = Some (Doc (JObj ?kvs))"
    using m by (simp add: filter_assign_key)
  with e k show ?thesis by blast
qed

text \<open>When the table is a primitive value, the assignment throws and nothing is stored.\<close>

lemma enroll_primitive_table:
  assumes "enroll_loop st True 0 0 [] ticks = Some collected" "collected \<noteq> []"
    and "db_primitive st" "name \<noteq> ''__proto__''"
  shows "enroll name True ticks st = Some (Inl TypeError, st\<lparr>running := False\<rparr>)"
  using assms by (simp add: enroll_def replace_def)

text \<open>Names that are array indices come first, in ascending order.\<close>

lemma array_index_examples:
  "array_index ''7'' = Some 7" "array_index ''12'' = Some 12" "array_index ''Alice'' = None"
  "array_index ''07'' = None" "array_index '''' = None" "array_index ''4294967295'' = None"
  "array_index ''4294967294'' = Some 4294967294"
  by (simp_all add: array_index_def is_digit_def digit_value_def)

lemma assign_key_index_example:
  "assign_key ''7'' v [(''3'', a), (''12'', b), (''Alice'', c)]
   = [(''3'', a), (''7'', v), (''12'', b), (''Alice'', c)]"
  by (simp add: assign_key_def array_index_def is_digit_def digit_value_def)

text \<open>
  C6: an enrollment that completes with at least one collected descriptor is to replace the
  entry of the name by the collected list and to persist the store. For the name
  \<^verbatim>\<open>__proto__\<close> the code does not: with one descriptor collected, \<^verbatim>\<open>enroll\<close> returns 1,
  but the assignment in \<^verbatim>\<open>replace\<close> adds no entry, so the table is as it was and the
  persisted document holds the earlier entries only.
\<close>

theorem enroll_proto_not_stored:
  "enroll ''__proto__'' True [(Face [Fin 1, Fin 2], True)] st_alice
   = Some (Inr 1, st_alice\<lparr>running := False,
        localStorage := Some (Doc (JObj [(''Alice'',
          JArr [JArr [JNum (Fin 3), JNum (Fin 4)], JArr [JNum (Fin 3), JNum (Fin 4)]])]))\<rparr>)
   \<and> db st_alice = [(''Alice'', [[Fin 3, Fin 4], [Fin 3, Fin 4]])]
   \<and> assign_key ''__proto__'' [[Fin 1, Fin 2]] (db st_alice) = db st_alice"
  by (simp add: enroll_def replace_def saveDB_def serializable_def stringify_number_def
      assign_key_def st_alice_def js_ge_def)

section \<open>Saving and loading the store\<close>

lemma those_all_map_Some: "those_all (map Some xs) = Some xs"
  by (induction xs) simp_all

lemma those_all_map_Some_fun: "those_all (map (\<lambda>x. Some (f x)) xs) = Some (map f xs)"
  by (induction xs) simp_all

lemma those_all_None: "None \<in> set xs \<Longrightarrow> those_all xs = None"
proof (induction xs)
  case Nil
  then show ?case by simp
next
  case (Cons x xs)
  then show ?case by (cases x) (auto split: option.splits)
qed

lemma to_float32_representable:
  assumes "\<bar>m\<bar> < 2 ^ 24" "- 149 \<le> e" "e \<le> 104"
  shows "to_float32 (Fin (of_int m * 2 powr of_int e)) = Fin (of_int m * 2 powr of_int e)"
proof -
  let ?r = "of_int m * 2 powr of_int e :: real"
  have r: "round_float32 ?r = ?r"
    unfolding round_float32_def using assms(1,2) by (rule round_binary_representable)
  have "(of_int \<bar>m\<bar> :: real) < of_int (2 ^ 24)" using assms(1) by (simp only: of_int_less_iff)
  then have m: "(of_int \<bar>m\<bar> :: real) < 2 ^ 24" by simp
  have "2 powr of_int e \<le> (2 :: real) powr of_int 104"
    using assms(3) by (intro powr_mono) simp_all
  also have "\<dots> = 2 ^ 104" using two_powr_int [of 104] by simp
  finally have e: "2 powr of_int e \<le> (2 :: real) ^ 104" .
  have "\<bar>?r\<bar> = of_int \<bar>m\<bar> * 2 powr of_int e" by (simp add: abs_mult)
  also have "\<dots> \<le> of_int \<bar>m\<bar> * 2 ^ 104"
    using e by (intro mult_left_mono) simp_all
  also have "\<dots> < 2 ^ 24 * 2 ^ 104"
    using m by (intro mult_strict_right_mono) simp_all
  also have "\<dots> = (2 :: real) ^ 128" by simp
  finally have "\<bar>?r\<bar> < 2 ^ 128" .
  then show ?thesis by (simp add: to_float32_def r Let_def)
qed

lemma to_float32_int: "\<bar>m\<bar> < 2 ^ 24 \<Longrightarrow> to_float32 (Fin (of_int m)) = Fin (of_int m)"
  using to_float32_representable [of m 0] by simp

lemma to_float32_small:
  "to_float32 (Fin 0) = Fin 0" "to_float32 (Fin 1) = Fin 1"
  "(numeral n :: int) < 2 ^ 24 \<Longrightarrow> to_float32 (Fin (numeral n)) = Fin (numeral n)"
  using to_float32_int [of 0] to_float32_int [of 1] to_float32_int [of "numeral n"] by simp_all

text \<open>
  What a \<^verbatim>\<open>Float32Array\<close> holds is not changed by storing it into one again: its finite
  elements are the numbers of \<open>float32_descriptor\<close>.
\<close>

lemma to_float32_idempotent: "to_float32 (to_float32 x) = to_float32 x"
proof (cases x)
  case (Fin r)
  have i: "round_float32 (round_float32 r) = round_float32 r"
    unfolding round_float32_def by (rule round_binary_idempotent) simp
  show ?thesis
    by (simp add: Fin to_float32_def Let_def signed_inf_def i)
qed (simp_all add: to_float32_def)

lemma float32_descriptor_of_elements:
  "float32_descriptor (filter (\<lambda>x. \<exists>r. x = Fin r) (map to_float32 xs))"
proof (induction xs)
  case Nil
  show ?case by (simp add: float32_descriptor_def)
next
  case (Cons x xs)
  show ?case
  proof (cases "to_float32 x")
    case (Fin r)
    then have "to_float32 (Fin r) = Fin r" using to_float32_idempotent [of x] by simp
    with Cons Fin show ?thesis by (simp add: float32_descriptor_def)
  qed (use Cons in \<open>simp_all add: float32_descriptor_def\<close>)
qed

lemma float32_descriptor_fixed: "float32_descriptor f32 \<Longrightarrow> map to_float32 f32 = f32"
proof (induction f32)
  case Nil
  show ?case by simp
next
  case (Cons x f32)
  then show ?case by (cases x) (simp_all add: float32_descriptor_def)
qed

lemma float32_numbers_written:
  "float32_descriptor f32 \<Longrightarrow> map (ToNumber P) (map stringify_number f32) = map Some f32"
proof (induction f32)
  case Nil
  show ?case by simp
next
  case (Cons x f32)
  then show ?case
    by (cases x) (simp_all add: float32_descriptor_def ToNumber_def stringify_number_def)
qed

lemma Float32Array_roundtrip:
  "float32_descriptor f32 \<Longrightarrow> Float32Array_new P (JArr (map stringify_number f32)) = Some f32"
  by (simp add: Float32Array_new_def float32_numbers_written those_all_map_Some
      float32_descriptor_fixed del: map_map)

lemma descriptors_roundtrip:
  assumes "list_all float32_descriptor l"
  shows "revive_entry P (JArr (map (\<lambda>f32. JArr (map stringify_number f32)) l)) = Some l"
proof -
  have e: "map (\<lambda>f32. Float32Array_new P (JArr (map stringify_number f32))) l = map Some l"
    using assms by (simp add: list_all_iff Float32Array_roundtrip)
  show ?thesis by (simp add: revive_entry_def those_all_map_Some comp_def e)
qed

lemma revive_serializable:
  assumes "float32_store d" "''__proto__'' \<notin> fst ` set d"
  shows "revive P (serializable d) = Some d"
proof -
  have f: "filter (\<lambda>entry. fst entry \<noteq> ''__proto__'') d = d"
    using assms(2) by (force simp: filter_id_conv)
  have e: "map (\<lambda>entry. revive_entry P (JArr (map (\<lambda>f32. JArr (map stringify_number f32)) (snd entry)))) d
        = map (\<lambda>x. Some (snd x)) d"
    using assms(1) by (simp add: float32_store_def list_all_iff descriptors_roundtrip)
  show ?thesis
    by (simp add: revive_def own_entries_def serializable_def f comp_def e
        those_all_map_Some_fun zip_map_fst_snd)
qed

text \<open>
  C7, as amended: for every store whose descriptors hold finite single-precision numbers
  only, as the finite elements of a \<^verbatim>\<open>Float32Array\<close> are, and that has no entry named
  \<^verbatim>\<open>__proto__\<close>, saving it with \<^verbatim>\<open>saveDB\<close> and loading what was saved with
  \<^verbatim>\<open>loadDB\<close> gives a store with the same names, in the same order, mapped to the same
  lists of element-for-element equal vectors: the rounding of the reconstruction changes no
  element.
\<close>

theorem save_load_roundtrip:
  assumes "float32_store (db st)" "''__proto__'' \<notin> fst ` set (db st)"
  shows "loadDB P (localStorage (saveDB st)) = db st"
  using assms by (simp add: loadDB_def saveDB_def revive_serializable)

theorem save_load_roundtrip_witness:
  "float32_store (db st_alice) \<and> ''__proto__'' \<notin> fst ` set (db st_alice)
   \<and> loadDB platform0 (localStorage (saveDB st_alice))
       = [(''Alice'', [[Fin 3, Fin 4], [Fin 3, Fin 4]])]"
proof -
  have f: "float32_store (db st_alice)"
    by (simp add: float32_store_def float32_descriptor_def st_alice_def to_float32_small)
  have n: "''__proto__'' \<notin> fst ` set (db st_alice)" by (simp add: st_alice_def)
  have "db st_alice = [(''Alice'', [[Fin 3, Fin 4], [Fin 3, Fin 4]])]"
    by (simp add: st_alice_def)
  then show ?thesis
    using save_load_roundtrip [OF f n, of platform0] f n by simp
qed

text \<open>
  The claim as stated, for every store, fails for a descriptor that holds NaN (or an
  infinity): it is written as \<^verbatim>\<open>null\<close> and comes back as 0.
\<close>

theorem save_load_nan_counterexample:
  "loadDB platform0 (localStorage (saveDB st_nan)) = [(''Alice'', [[Fin 0, Fin 1]])]
   \<and> db st_nan = [(''Alice'', [[NaN, Fin 1]])]
   \<and> loadDB platform0 (localStorage (saveDB st_nan)) \<noteq> db st_nan"
  by (simp add: loadDB_def saveDB_def st_nan_def serializable_def stringify_number_def
      revive_def own_entries_def revive_entry_def Float32Array_new_def ToNumber_def
      to_float32_small)

text \<open>
  C8: \<^verbatim>\<open>loadDB\<close> returns the empty store when there is no value under the key, when the
  value is the empty string, when the value is not JSON, and whenever reviving the parsed
  value throws: in particular when an entry of the parsed object is not an array, and when
  the typed-array constructor throws on an element of an entry. No error leaves \<^verbatim>\<open>loadDB\<close>:
  its result is a store in every case.
\<close>

theorem loadDB_failure_empty:
  "loadDB P None = []
   \<and> loadDB P (Some EmptyString) = []
   \<and> loadDB P (Some Unparsable) = []
   \<and> (revive P obj = None \<longrightarrow> loadDB P (Some (Doc obj)) = [])
   \<and> ((k, v) \<in> set kvs \<and> (\<forall>arrs. v \<noteq> JArr arrs) \<longrightarrow> loadDB P (Some (Doc (JObj kvs))) = [])
   \<and> ((k, JArr arrs) \<in> set kvs \<and> arr \<in> set arrs \<and> Float32Array_new P arr = None
        \<longrightarrow> loadDB P (Some (Doc (JObj kvs))) = [])"
proof (intro conjI impI)
  show "loadDB P None = []" "loadDB P (Some EmptyString) = []" "loadDB P (Some Unparsable) = []"
    by (simp_all add: loadDB_def)
  show "loadDB P (Some (Doc obj)) = []" if "revive P obj = None"
    using that by (simp add: loadDB_def)
  show "loadDB P (Some (Doc (JObj kvs))) = []" if h: "(k, v) \<in> set kvs \<and> (\<forall>arrs. v \<noteq> JArr arrs)"
  proof -
    have "revive_entry P v = None" using h by (cases v) (simp_all add: revive_entry_def)
    then have "None \<in> set (map (\<lambda>kv. revive_entry P (snd kv)) kvs)"
      using h by force
    then show ?thesis
      by (simp add: loadDB_def revive_def own_entries_def those_all_None del: set_map)
  qed
  show "loadDB P (Some (Doc (JObj kvs))) = []"
    if h: "(k, JArr arrs) \<in> set kvs \<and> arr \<in> set arrs \<and> Float32Array_new P arr = None"
  proof -
    have "None \<in> set (map (Float32Array_new P) arrs)" using h by force
    then have "revive_entry P (JArr arrs) = None"
      by (simp add: revive_entry_def those_all_None del: set_map)
    then have "None \<in> set (map (\<lambda>kv. revive_entry P (snd kv)) kvs)"
      using h by force
    then show ?thesis
      by (simp add: loadDB_def revive_def own_entries_def those_all_None del: set_map)
  qed
qed

theorem loadDB_failure_empty_witness:
  "revive platform0 JNull = None
   \<and> loadDB platform0 (Some (Doc JNull)) = []
   \<and> (''Alice'', JNum (Fin 5)) \<in> set [(''Bob'', JArr []), (''Alice'', JNum (Fin 5))]
   \<and> (\<forall>arrs. JNum (Fin 5) \<noteq> JArr arrs)
   \<and> loadDB platform0 (Some (Doc (JObj [(''Bob'', JArr []), (''Alice'', JNum (Fin 5))]))) = []
   \<and> Float32Array_new (platform0\<lparr>alloc := (\<lambda>j. None)\<rparr>) (JNum (Fin (- 1))) = None
   \<and> loadDB (platform0\<lparr>alloc := (\<lambda>j. None)\<rparr>)
        (Some (Doc (JObj [(''Alice'', JArr [JNum (Fin (- 1))])]))) = []"
proof -
  have r: "revive platform0 JNull = None" by (simp add: revive_def own_entries_def)
  have a: "Float32Array_new (platform0\<lparr>alloc := (\<lambda>j. None)\<rparr>) (JNum (Fin (- 1))) = None"
    by (simp add: Float32Array_new_def)
  show ?thesis
    using r a
      loadDB_failure_empty [of platform0 JNull "''Alice''" "JNum (Fin 5)"
        "[(''Bob'', JArr []), (''Alice'', JNum (Fin 5))]"]
      loadDB_failure_empty [of "platform0\<lparr>alloc := (\<lambda>j. None)\<rparr>" JNull "''Alice''" "JNull"
        "[(''Alice'', JArr [JNum (Fin (- 1))])]" "[JNum (Fin (- 1))]" "JNum (Fin (- 1))"]
    by simp
qed

section \<open>The strategy chosen for a request\<close>

lemma take_length_eq: "(take (length n) xs = n) = (\<exists>s. xs = n @ s)"
  by (metis append_eq_conv_conj append_take_drop_id)

lemma str_includes_iff: "str_includes h n = (\<exists>p s. h = p @ n @ s)"
proof (induction h)
  case Nil
  show ?case by auto
next
  case (Cons c cs)
  have "(\<exists>p s. c # cs = p @ n @ s) = ((\<exists>s. c # cs = n @ s) \<or> (\<exists>p s. cs = p @ n @ s))"
  proof
    assume "\<exists>p s. c # cs = p @ n @ s"
    then obtain p s where e: "c # cs = p @ n @ s" by blast
    show "(\<exists>s. c # cs = n @ s) \<or> (\<exists>p s. cs = p @ n @ s)"
    proof (cases p)
      case Nil
      with e show ?thesis by auto
    next
      case (Cons a p')
      with e have "cs = p' @ n @ s" by simp
      then show ?thesis by blast
    qed
  next
    assume "(\<exists>s. c # cs = n @ s) \<or> (\<exists>p s. cs = p @ n @ s)"
    then show "\<exists>p s. c # cs = p @ n @ s"
    proof
      assume "\<exists>s. c # cs = n @ s"
      then obtain s where "c # cs = [] @ n @ s" by auto
      then show ?thesis by blast
    next
      assume "\<exists>p s. cs = p @ n @ s"
      then obtain p s where "c # cs = (c # p) @ n @ s" by auto
      then show ?thesis by blast
    qed
  qed
  then show ?case using Cons.IH by (simp add: take_length_eq del: take_Suc_Cons)
qed

text \<open>
  C9: for every intercepted request, a request that is not a GET is not handled; a
  same-origin GET whose path contains \<^verbatim>\<open>/models/\<close> is answered with
  stale-while-revalidate; every other same-origin GET is answered cache-first, which gives
  the cached copy if there is one and else the network's response, stored in the cache only
  when it is successful; every cross-origin GET is answered with stale-while-revalidate,
  which gives the cached copy if there is one and else what the network gives, and in both
  cases stores the network's response in the cache when it is successful or opaque.
\<close>

theorem fetch_dispatch:
  assumes "parsed_url req = Some u"
  shows "(req_method req \<noteq> ''GET'' \<longrightarrow> fetch_listener loc req = NotHandled)
     \<and> (req_method req = ''GET'' \<and> origin u = loc \<and> (\<exists>p s. pathname u = p @ ''/models/'' @ s)
          \<longrightarrow> fetch_listener loc req = RespondWith StaleWhileRevalidate)
     \<and> (req_method req = ''GET'' \<and> origin u = loc \<and> \<not> (\<exists>p s. pathname u = p @ ''/models/'' @ s)
          \<longrightarrow> fetch_listener loc req = RespondWith CacheFirst)
     \<and> (req_method req = ''GET'' \<and> origin u \<noteq> loc
          \<longrightarrow> fetch_listener loc req = RespondWith StaleWhileRevalidate)
     \<and> (c (req_url req) = Some cached \<longrightarrow> respond CacheFirst req net c = (Some cached, c))
     \<and> (c (req_url req) = None \<longrightarrow>
          respond CacheFirst req (Some res) c
            = (Some res, if ok res then c(req_url req \<mapsto> res) else c)
          \<and> respond CacheFirst req None c = (None, c))
     \<and> (c (req_url req) = Some cached \<longrightarrow>
          fst (respond StaleWhileRevalidate req net c) = Some cached)
     \<and> (c (req_url req) = None \<longrightarrow> fst (respond StaleWhileRevalidate req net c) = net)
     \<and> snd (respond StaleWhileRevalidate req (Some res) c)
         = (if ok res \<or> opaque res then c(req_url req \<mapsto> res) else c)
     \<and> snd (respond StaleWhileRevalidate req None c) = c"
proof -
  have m: "isModelRequest (parsed_url req) = (\<exists>p s. pathname u = p @ ''/models/'' @ s)"
    using assms by (simp add: isModelRequest_def str_includes_iff)
  have d: "fetch_listener loc req =
      (if req_method req \<noteq> ''GET'' then NotHandled
       else if origin u = loc
       then (if isModelRequest (parsed_url req) then RespondWith StaleWhileRevalidate
             else RespondWith CacheFirst)
       else RespondWith StaleWhileRevalidate)"
    using assms by (simp add: fetch_listener_def)
  have cf: "(c (req_url req) = Some cached \<longrightarrow> respond CacheFirst req net c = (Some cached, c))
     \<and> (c (req_url req) = None \<longrightarrow>
          respond CacheFirst req (Some res) c
            = (Some res, if ok res then c(req_url req \<mapsto> res) else c)
          \<and> respond CacheFirst req None c = (None, c))"
    by (simp add: respond_def cacheFirst_def)
  have swr: "(c (req_url req) = Some cached \<longrightarrow>
          fst (respond StaleWhileRevalidate req net c) = Some cached)
     \<and> (c (req_url req) = None \<longrightarrow> fst (respond StaleWhileRevalidate req net c) = net)"
    by (cases net) (simp_all add: respond_def staleWhileRevalidate_def Let_def)
  have put: "snd (respond StaleWhileRevalidate req (Some res) c)
         = (if ok res \<or> opaque res then c(req_url req \<mapsto> res) else c)
     \<and> snd (respond StaleWhileRevalidate req None c) = c"
    by (simp add: respond_def staleWhileRevalidate_def Let_def)
  show ?thesis unfolding d m using cf swr put by simp
qed

theorem fetch_dispatch_witness:
  "fetch_listener app_origin (sw_request ''POST'' app_origin ''/api'') = NotHandled
   \<and> fetch_listener app_origin (sw_request ''GET'' app_origin ''/models/tiny.json'')
       = RespondWith StaleWhileRevalidate
   \<and> fetch_listener app_origin (sw_request ''GET'' app_origin ''/face.html'')
       = RespondWith CacheFirst
   \<and> fetch_listener app_origin (sw_request ''GET'' ''https://cdn.jsdelivr.net'' ''/npm/face-api.min.js'')
       = RespondWith StaleWhileRevalidate
   \<and> respond CacheFirst (sw_request ''GET'' app_origin ''/face.html'') (Some failed_response)
         Map.empty = (Some failed_response, Map.empty)
   \<and> respond CacheFirst (sw_request ''GET'' app_origin ''/face.html'') (Some failed_response)
         [app_origin @ ''/face.html'' \<mapsto> ok_response]
       = (Some ok_response, [app_origin @ ''/face.html'' \<mapsto> ok_response])
   \<and> respond StaleWhileRevalidate (sw_request ''GET'' app_origin ''/models/tiny.json'')
         (Some fresh_response) [app_origin @ ''/models/tiny.json'' \<mapsto> ok_response]
       = (Some ok_response, [app_origin @ ''/models/tiny.json'' \<mapsto> fresh_response])
   \<and> respond StaleWhileRevalidate (sw_request ''GET'' app_origin ''/models/tiny.json'')
         None [app_origin @ ''/models/tiny.json'' \<mapsto> ok_response]
       = (Some ok_response, [app_origin @ ''/models/tiny.json'' \<mapsto> ok_response])"
proof -
  let ?post = "sw_request ''POST'' app_origin ''/api''"
  let ?model = "sw_request ''GET'' app_origin ''/models/tiny.json''"
  let ?shell = "sw_request ''GET'' app_origin ''/face.html''"
  let ?cdn = "sw_request ''GET'' ''https://cdn.jsdelivr.net'' ''/npm/face-api.min.js''"
  have p1: "parsed_url ?post = Some \<lparr>origin = app_origin, pathname = ''/api''\<rparr>"
    and p2: "parsed_url ?model = Some \<lparr>origin = app_origin, pathname = ''/models/tiny.json''\<rparr>"
    and p3: "parsed_url ?shell = Some \<lparr>origin = app_origin, pathname = ''/face.html''\<rparr>"
    and p4: "parsed_url ?cdn
             = Some \<lparr>origin = ''https://cdn.jsdelivr.net'', pathname = ''/npm/face-api.min.js''\<rparr>"
    by (simp_all add: sw_request_def)
  have m: "req_method ?post \<noteq> ''GET''" "req_method ?model = ''GET''"
    "req_method ?shell = ''GET''" "req_method ?cdn = ''GET''"
    by (simp_all add: sw_request_def)
  have u: "req_url ?shell = app_origin @ ''/face.html''" by (simp add: sw_request_def)
  have ex: "\<exists>p s. ''/models/tiny.json'' = p @ ''/models/'' @ s"
    by (rule exI [of _ "[]"], rule exI [of _ "''tiny.json''"]) simp
  have nex: "\<not> (\<exists>p s. ''/face.html'' = p @ ''/models/'' @ s)"
    using str_includes_iff [of "''/face.html''" "''/models/''", symmetric] by simp
  have o: "''https://cdn.jsdelivr.net'' \<noteq> app_origin" by (simp add: app_origin_def)
  have a: "fetch_listener app_origin ?post = NotHandled"
    using fetch_dispatch [OF p1, of app_origin] m by simp
  have b: "fetch_listener app_origin ?model = RespondWith StaleWhileRevalidate"
    using fetch_dispatch [OF p2, of app_origin] m ex by simp
  have c: "fetch_listener app_origin ?shell = RespondWith CacheFirst"
    using fetch_dispatch [OF p3, of app_origin] m nex by simp
  have d: "fetch_listener app_origin ?cdn = RespondWith StaleWhileRevalidate"
    using fetch_dispatch [OF p4, of app_origin] m o by simp
  have e: "respond CacheFirst ?shell (Some failed_response) Map.empty
           = (Some failed_response, Map.empty)"
    using fetch_dispatch [OF p3, of app_origin Map.empty _ _ failed_response]
    by (simp add: failed_response_def)
  have f: "respond CacheFirst ?shell (Some failed_response) [app_origin @ ''/face.html'' \<mapsto> ok_response]
           = (Some ok_response, [app_origin @ ''/face.html'' \<mapsto> ok_response])"
    using fetch_dispatch [OF p3, of app_origin "[app_origin @ ''/face.html'' \<mapsto> ok_response]"
        ok_response "Some failed_response"] u
    by simp
  have u2: "req_url ?model = app_origin @ ''/models/tiny.json''" by (simp add: sw_request_def)
  have g: "respond StaleWhileRevalidate ?model (Some fresh_response)
             [app_origin @ ''/models/tiny.json'' \<mapsto> ok_response]
           = (Some ok_response, [app_origin @ ''/models/tiny.json'' \<mapsto> fresh_response])"
    using fetch_dispatch [OF p2, of app_origin "[app_origin @ ''/models/tiny.json'' \<mapsto> ok_response]"
        ok_response "Some fresh_response" fresh_response] u2
    by (simp add: fresh_response_def prod_eq_iff)
  have h: "respond StaleWhileRevalidate ?model None
             [app_origin @ ''/models/tiny.json'' \<mapsto> ok_response]
           = (Some ok_response, [app_origin @ ''/models/tiny.json'' \<mapsto> ok_response])"
    using fetch_dispatch [OF p2, of app_origin "[app_origin @ ''/models/tiny.json'' \<mapsto> ok_response]"
        ok_response None] u2
    by (simp add: prod_eq_iff)
  show ?thesis using a b c d e f g h by simp
qed

end
